theory Spec2Isabelle
  imports Complex_Main "HOL-Library.AList" "HOL-Library.Sublist"
begin

section \<open>Strings, paths and errors\<close>

text \<open>
  The program is \<^verbatim>\<open>generate_assessment.py\<close>: two image renderers, a document
  composer, a package assembler working on the filesystem, and a publisher driving
  \<^verbatim>\<open>git\<close>.  Python strings are modelled as \<^typ>\<open>string\<close>; the few characters
  outside ASCII that the literals of the program contain are written as their UTF-8 bytes.
\<close>

abbreviation newline :: string where
  "newline \<equiv> [CHR 0x0A]"

abbreviation backslash :: string where
  "backslash \<equiv> [CHR 0x5C]"

abbreviation times_sign :: string where
  "times_sign \<equiv> [CHR 0xC3, CHR 0x97]"

abbreviation em_dash :: string where
  "em_dash \<equiv> [CHR 0xE2, CHR 0x80, CHR 0x94]"

text \<open>A \<^verbatim>\<open>pathlib.Path\<close> is the list of its components, from the root.\<close>

type_synonym path = "string list"

text \<open>\<^verbatim>\<open>Path.name\<close>: the last component, the empty string for a path without one.\<close>

fun name :: "path \<Rightarrow> string" where
  "name [] = []"
| "name [c] = c"
| "name (c # p) = name p"

text \<open>\<^verbatim>\<open>str(path)\<close> of a relative path: the components joined by the separator.\<close>

fun path_str :: "path \<Rightarrow> string" where
  "path_str [] = ''.''"
| "path_str [c] = c"
| "path_str (c # p) = c @ ''/'' @ path_str p"

text \<open>
  The exceptions the program can meet.  \<open>CalledProcessError cmd rc\<close> is what
  \<^verbatim>\<open>subprocess.run(cmd, check=True)\<close> raises on the exit status \<open>rc \<noteq> 0\<close>;
  \<open>OSError\<close> stands for a process that could not be started, or for a resource that
  could not be loaded.
\<close>

datatype error =
    FileNotFoundError
  | FileExistsError
  | NotADirectoryError
  | IsADirectoryError
  | PermissionError
  | SameFileError
  | UnrecognizedImageError
  | ValueError
  | OverflowError
  | ZeroDivisionError
  | OSError
  | CalledProcessError "string list" int

text \<open>
  An operation gives a value or raises an exception, and leaves a state (the filesystem,
  the open archive, the world of the publisher).  \<open>bind\<close> runs one statement after
  another: an exception ends the run and leaves the state as it was then.
\<close>

definition bind :: "(error + 'a) \<times> 's \<Rightarrow> ('a \<Rightarrow> 's \<Rightarrow> (error + 'b) \<times> 's) \<Rightarrow> (error + 'b) \<times> 's" where
  "bind m f = (case m of (Inl e, s) \<Rightarrow> (Inl e, s) | (Inr x, s) \<Rightarrow> f x s)"

text \<open>
  The same for the statements that touch no state: \<open>seq\<close> runs one after another,
  \<open>for_each\<close> is a loop that collects what its body computes, and \<open>raising\<close> is a
  call that returns nothing and may raise.
\<close>

definition seq :: "error + 'a \<Rightarrow> ('a \<Rightarrow> error + 'b) \<Rightarrow> error + 'b" where
  "seq m f = (case m of Inl e \<Rightarrow> Inl e | Inr x \<Rightarrow> f x)"

fun for_each :: "('a \<Rightarrow> error + 'b) \<Rightarrow> 'a list \<Rightarrow> error + 'b list" where
  "for_each f [] = Inr []"
| "for_each f (x # xs) = seq (f x) (\<lambda>y. seq (for_each f xs) (\<lambda>ys. Inr (y # ys)))"

definition raising :: "error option \<Rightarrow> error + unit" where
  "raising r = (case r of Some e \<Rightarrow> Inl e | None \<Rightarrow> Inr ())"

section \<open>Python numbers\<close>

text \<open>
  A number of the program is an \<^verbatim>\<open>int\<close>, of any size, or a \<^verbatim>\<open>float\<close>, an IEEE 754
  double: a real number \<open>m * 2 ^ e\<close> with \<open>\<bar>m\<bar> < 2 ^ 53\<close> and
  \<open>- 1074 \<le> e \<le> 971\<close>, an infinity (\<open>Infinity True\<close> is the negative one) or
  not-a-number.  The sign of a zero is not kept: no operation of the program tells the
  two zeros apart.
\<close>

datatype double = Finite real | Infinity bool | NaN

datatype number = PyInt int | PyFloat double

text \<open>
  The result of every operation on doubles is the exact result rounded to the nearest
  double, to the one with the even mantissa when two are equally near; a result beyond
  the largest double becomes an infinity.  \<open>to_double\<close> is this rounding: the exponent
  of the last place is 52 below the exponent of \<open>x\<close>, and not below \<open>- 1074\<close>.
\<close>

definition round_half_even :: "real \<Rightarrow> int" where
  "round_half_even x =
     (let f = \<lfloor>x\<rfloor>; d = x - of_int f
      in if d < 1/2 then f else if 1/2 < d then f + 1 else if even f then f else f + 1)"

definition to_double :: "real \<Rightarrow> double" where
  "to_double x =
     (if x = 0 then Finite 0
      else let e = max (\<lfloor>log 2 \<bar>x\<bar>\<rfloor> - 52) (- 1074);
               y = of_int (round_half_even (x / 2 powr of_int e)) * 2 powr of_int e
           in if 2 ^ 1024 \<le> \<bar>y\<bar> then Infinity (x < 0) else Finite y)"

fun double_mul :: "double \<Rightarrow> double \<Rightarrow> double" where
  "double_mul (Finite x) (Finite y) = to_double (x * y)"
| "double_mul (Finite x) (Infinity neg) = (if x = 0 then NaN else Infinity (neg \<noteq> (x < 0)))"
| "double_mul (Infinity neg) (Finite y) = (if y = 0 then NaN else Infinity (neg \<noteq> (y < 0)))"
| "double_mul (Infinity a) (Infinity b) = Infinity (a \<noteq> b)"
| "double_mul NaN y = NaN"
| "double_mul x NaN = NaN"

fun double_add :: "double \<Rightarrow> double \<Rightarrow> double" where
  "double_add (Finite x) (Finite y) = to_double (x + y)"
| "double_add (Finite x) (Infinity b) = Infinity b"
| "double_add (Infinity a) (Finite y) = Infinity a"
| "double_add (Infinity a) (Infinity b) = (if a = b then Infinity a else NaN)"
| "double_add NaN y = NaN"
| "double_add x NaN = NaN"

text \<open>
  An \<^verbatim>\<open>int\<close> that meets a \<^verbatim>\<open>float\<close> in \<^verbatim>\<open>*\<close> or \<^verbatim>\<open>+\<close> is converted first, with the
  same rounding; Python raises when it is too large for a double.
\<close>

definition float_of_int :: "int \<Rightarrow> error + double" where
  "float_of_int i =
     (case to_double (of_int i) of Finite y \<Rightarrow> Inr (Finite y) | _ \<Rightarrow> Inl OverflowError)"

fun py_mul :: "number \<Rightarrow> number \<Rightarrow> error + number" where
  "py_mul (PyInt a) (PyInt b) = Inr (PyInt (a * b))"
| "py_mul (PyInt a) (PyFloat y) = seq (float_of_int a) (\<lambda>x. Inr (PyFloat (double_mul x y)))"
| "py_mul (PyFloat x) (PyInt b) = seq (float_of_int b) (\<lambda>y. Inr (PyFloat (double_mul x y)))"
| "py_mul (PyFloat x) (PyFloat y) = Inr (PyFloat (double_mul x y))"

fun py_add :: "number \<Rightarrow> number \<Rightarrow> error + number" where
  "py_add (PyInt a) (PyInt b) = Inr (PyInt (a + b))"
| "py_add (PyInt a) (PyFloat y) = seq (float_of_int a) (\<lambda>x. Inr (PyFloat (double_add x y)))"
| "py_add (PyFloat x) (PyInt b) = seq (float_of_int b) (\<lambda>y. Inr (PyFloat (double_add x y)))"
| "py_add (PyFloat x) (PyFloat y) = Inr (PyFloat (double_add x y))"

text \<open>
  \<^verbatim>\<open>int(x)\<close> cuts a float down to a whole number, towards zero, and raises on an
  infinity and on not-a-number.  \<^verbatim>\<open>a / b\<close> of two \<^verbatim>\<open>int\<close> gives the double nearest to
  the quotient.
\<close>

definition towards_zero :: "real \<Rightarrow> int" where
  "towards_zero x = (if 0 \<le> x then \<lfloor>x\<rfloor> else \<lceil>x\<rceil>)"

fun py_int :: "number \<Rightarrow> error + int" where
  "py_int (PyInt i) = Inr i"
| "py_int (PyFloat (Finite x)) = Inr (towards_zero x)"
| "py_int (PyFloat (Infinity neg)) = Inl OverflowError"
| "py_int (PyFloat NaN) = Inl ValueError"

definition py_truediv :: "int \<Rightarrow> int \<Rightarrow> error + double" where
  "py_truediv a b =
     (if b = 0 then Inl ZeroDivisionError
      else case to_double (of_int a / of_int b) of
             Finite y \<Rightarrow> Inr (Finite y)
           | _ \<Rightarrow> Inl OverflowError)"

text \<open>\<^verbatim>\<open>range(n)\<close>: the numbers from 0 up to \<open>n - 1\<close>, none for \<open>n \<le> 0\<close>.\<close>

definition py_range :: "int \<Rightarrow> int list" where
  "py_range n = map int [0..<nat n]"

section \<open>File contents\<close>

text \<open>
  What the Pillow calls of \<^verbatim>\<open>make_uniform_image\<close> leave in the image: the drawing
  operations in the order they were issued, each with the arguments of the call; a text
  with the font it was drawn in.
\<close>

datatype font = DefaultFont

datatype draw_op =
    DrawText "int \<times> int" string string font
  | DrawRectangle "int list" string

record raster =
  mode :: string
  pixels :: "int \<times> int"
  color :: string
  ops :: "draw_op list"

text \<open>
  What the matplotlib calls of \<^verbatim>\<open>make_packed_spheres_image\<close> leave in the figure:
  its size in inches and its resolution, the circles in the order they were added, and
  the limits of the two axes, all with the numbers that the program passed.  Every circle
  is drawn with a black edge of width 1.5 and no fill; the axes have equal aspect and are
  hidden.
\<close>

record circle =
  center_x :: number
  center_y :: number
  radius_px :: number

record figure =
  figsize :: "double \<times> double"
  dpi :: int
  patches :: "circle list"
  xlim :: "int \<times> int"
  ylim :: "int \<times> int"

text \<open>
  A file holds text, one of the two kinds of image (\<open>Png\<close> is the file that Pillow
  saved for an image, \<open>Plot\<close> the file that matplotlib saved for a figure), a document
  (the blocks added to it, in order) or an archive (its entries, name and content, in
  order).
\<close>

datatype content =
    Text string
  | Png raster
  | Plot figure
  | Docx "block list"
  | Zip "(string \<times> content) list"
and block =
    Heading string nat
  | Paragraph string
  | Picture content nat

section \<open>The hard-coded content\<close>

definition create_docx_blocks :: "content \<Rightarrow> content \<Rightarrow> block list" where
  "create_docx_blocks pic1 pic2 =
    [Heading (''Generated Assessment Questions'') 1,
     Paragraph (''@title Central Middle '' @ em_dash @ '' Derived Assessment''),
     Paragraph (''@description Two generated quantitative math questions similar to the base examples.''),
     Paragraph (newline @ ''// Use this block for each question when adding Multiple Choice Questions (MCQ)''),
     Paragraph (newline @ ''@question Each student at Riverside Prep chooses a uniform consisting of 1 shirt, 1 pair of pants, and 1 hat. The table shows the available options for each item. How many different complete uniforms are possible?''),
     Paragraph (''@instruction Select the number of possible uniform combinations from the options.''),
     Paragraph (''@difficulty easy''),
     Paragraph (''@Order 1''),
     Paragraph (''@option (A) 18''),
     Paragraph (''@option (B) 24''),
     Paragraph (''@@option (C) 36''),
     Paragraph (''@option (D) 48''),
     Paragraph (''@option (E) 72''),
     Paragraph (''@explanation ''),
     Paragraph (''There are 4 shirt choices, 3 pants choices, and 3 hat choices. Total combinations = 4 '' @ times_sign @ '' 3 '' @ times_sign @ '' 3 = 36.''),
     Paragraph (''@subject Quantitative Math''),
     Paragraph (''@unit Numbers and Operations''),
     Paragraph (''@topic Combinations / Counting''),
     Paragraph (''@plusmarks 1''),
     Picture pic1 6,
     Paragraph (newline @ ''@question The top view of a rectangular box containing 8 identical tightly packed spherical balls arranged in two rows of four is shown. If each ball has radius $2$ cm, which of the following is closest to the dimensions (height '' @ times_sign @ '' width '' @ times_sign @ '' length), in centimeters, of the rectangular package?''),
     Paragraph (''@instruction Choose the correct dimensions from the options.''),
     Paragraph (''@difficulty moderate''),
     Paragraph (''@Order 2''),
     Paragraph (''@option (A) $4 '' @ backslash @ ''times 8 '' @ backslash @ ''times 16$''),
     Paragraph (''@option (B) $2 '' @ backslash @ ''times 8 '' @ backslash @ ''times 16$''),
     Paragraph (''@@option (C) $4 '' @ backslash @ ''times 12 '' @ backslash @ ''times 18$''),
     Paragraph (''@option (D) $6 '' @ backslash @ ''times 8 '' @ backslash @ ''times 16$''),
     Paragraph (''@option (E) $8 '' @ backslash @ ''times 12 '' @ backslash @ ''times 24$''),
     Paragraph (''@explanation ''),
     Paragraph (''Top view shows two rows and four columns of circles (diameter = 4 cm). Width (short side) = 2 rows '' @ times_sign @ '' 4 cm = 8 cm. Length = 4 columns '' @ times_sign @ '' 4 cm = 16 cm. Height must accommodate one layer of balls: diameter = 4 cm. So dimensions: $4 '' @ backslash @ ''times 8 '' @ backslash @ ''times 16$.''),
     Paragraph (''@subject Quantitative Math''),
     Paragraph (''@unit Geometry and Measurement''),
     Paragraph (''@topic Solid Figures / Coordinate Geometry''),
     Paragraph (''@plusmarks 1''),
     Picture pic2 6]"

definition questions_md_text :: string where
  "questions_md_text = concat
    [''@title Central Middle '' @ em_dash @ '' Derived Assessment'' @ newline,
     ''@description Two generated quantitative math questions similar to the base examples.'' @ newline @ newline,
     ''// Question 1'' @ newline,
     ''@question Each student at Riverside Prep chooses a uniform consisting of 1 shirt, 1 pair of pants, and 1 hat. The table shows the available options for each item. How many different complete uniforms are possible?'' @ newline,
     ''@instruction Select the number of possible uniform combinations from the options.'' @ newline,
     ''@difficulty easy'' @ newline,
     ''@Order 1'' @ newline,
     ''@option (A) 18'' @ newline,
     ''@option (B) 24'' @ newline,
     ''@@option (C) 36'' @ newline,
     ''@option (D) 48'' @ newline,
     ''@option (E) 72'' @ newline,
     ''@explanation '' @ newline,
     ''There are 4 shirt choices, 3 pants choices, and 3 hat choices. Total combinations = 4 '' @ times_sign @ '' 3 '' @ times_sign @ '' 3 = 36.'' @ newline,
     ''@subject Quantitative Math'' @ newline,
     ''@unit Numbers and Operations'' @ newline,
     ''@topic Combinations / Counting'' @ newline,
     ''@plusmarks 1'' @ newline @ newline,
     ''// Question 2'' @ newline,
     ''@question The top view of a rectangular box containing 8 identical tightly packed spherical balls arranged in two rows of four is shown. If each ball has radius $2$ cm, which of the following is closest to the dimensions (height '' @ times_sign @ '' width '' @ times_sign @ '' length), in centimeters, of the rectangular package?'' @ newline,
     ''@instruction Choose the correct dimensions from the options.'' @ newline,
     ''@difficulty moderate'' @ newline,
     ''@Order 2'' @ newline,
     ''@option (A) $4 '' @ backslash @ ''times 8 '' @ backslash @ ''times 16$'' @ newline,
     ''@option (B) $2 '' @ backslash @ ''times 8 '' @ backslash @ ''times 16$'' @ newline,
     ''@@option (C) $4 '' @ backslash @ ''times 12 '' @ backslash @ ''times 18$'' @ newline,
     ''@option (D) $6 '' @ backslash @ ''times 8 '' @ backslash @ ''times 16$'' @ newline,
     ''@option (E) $8 '' @ backslash @ ''times 12 '' @ backslash @ ''times 24$'' @ newline,
     ''@explanation '' @ newline,
     ''Top view shows two rows and four columns of circles (diameter = 4 cm). Width (short side) = 2 rows '' @ times_sign @ '' 4 cm = 8 cm. Length = 4 columns '' @ times_sign @ '' 4 cm = 16 cm. Height must accommodate one layer of balls: diameter = 4 cm. So dimensions: $4 '' @ backslash @ ''times 8 '' @ backslash @ ''times 16$.'' @ newline,
     ''@subject Quantitative Math'' @ newline,
     ''@unit Geometry and Measurement'' @ newline,
     ''@topic Solid Figures / Coordinate Geometry'' @ newline,
     ''@plusmarks 1'' @ newline]"

definition readme_text :: string where
  "readme_text =
    ''# Generated Assessment Questions'' @ newline @ newline @ ''This repository contains two generated quantitative math questions in the requested Question Output Format, plus images.'' @ newline"

section \<open>The filesystem\<close>

text \<open>
  The filesystem is a tree: a file with its content, or a directory with its entries in
  the order a listing gives them.
\<close>

datatype node = File content | Dir "(string \<times> node) list"

text \<open>What is at a path below a node, if anything.\<close>

fun lookup :: "path \<Rightarrow> node option \<Rightarrow> node option" where
  "lookup [] n = n"
| "lookup (c # p) (Some (Dir es)) = lookup p (map_of es c)"
| "lookup (c # p) (Some (File x)) = None"
| "lookup (c # p) None = None"

text \<open>
  Every change of the tree happens at one path: \<open>f\<close> gets what is there and answers what
  shall be there, or an exception.  The directories above the path must exist.
\<close>

fun alter ::
  "path \<Rightarrow> (node option \<Rightarrow> error + node option) \<Rightarrow> node option \<Rightarrow> error + node option" where
  "alter [] f n = f n"
| "alter (c # p) f (Some (Dir es)) =
     (case alter p f (map_of es c) of
        Inl e \<Rightarrow> Inl e
      | Inr None \<Rightarrow> Inr (Some (Dir (AList.delete c es)))
      | Inr (Some n') \<Rightarrow> Inr (Some (Dir (AList.update c n' es))))"
| "alter (c # p) f (Some (File x)) = Inl NotADirectoryError"
| "alter (c # p) f None = Inl FileNotFoundError"

definition node_at :: "node \<Rightarrow> path \<Rightarrow> node option" where
  "node_at fs p = lookup p (Some fs)"

text \<open>A change of the filesystem at one path; the root itself cannot be removed.\<close>

definition change ::
  "path \<Rightarrow> (node option \<Rightarrow> error + node option) \<Rightarrow> node \<Rightarrow> (error + unit) \<times> node" where
  "change p f fs =
     (case alter p f (Some fs) of
        Inl e \<Rightarrow> (Inl e, fs)
      | Inr None \<Rightarrow> (Inl PermissionError, fs)
      | Inr (Some fs') \<Rightarrow> (Inr (), fs'))"

subsection \<open>The calls of pathlib, shutil and os that the program makes\<close>

definition path_exists :: "node \<Rightarrow> path \<Rightarrow> bool" where
  "path_exists fs p = (case node_at fs p of None \<Rightarrow> False | Some n \<Rightarrow> True)"

definition is_dir :: "node \<Rightarrow> path \<Rightarrow> bool" where
  "is_dir fs p = (case node_at fs p of Some (Dir es) \<Rightarrow> True | _ \<Rightarrow> False)"

text \<open>\<^verbatim>\<open>shutil.rmtree(p)\<close>: \<open>p\<close> must be a directory; it goes with all below it.\<close>

fun remove_dir :: "node option \<Rightarrow> error + node option" where
  "remove_dir None = Inl FileNotFoundError"
| "remove_dir (Some (File x)) = Inl NotADirectoryError"
| "remove_dir (Some (Dir es)) = Inr None"

definition rmtree :: "path \<Rightarrow> node \<Rightarrow> (error + unit) \<times> node" where
  "rmtree p = change p remove_dir"

text \<open>\<^verbatim>\<open>p.mkdir()\<close>: the parent must exist and \<open>p\<close> must not.\<close>

fun new_dir :: "node option \<Rightarrow> error + node option" where
  "new_dir None = Inr (Some (Dir []))"
| "new_dir (Some n) = Inl FileExistsError"

definition mkdir :: "path \<Rightarrow> node \<Rightarrow> (error + unit) \<times> node" where
  "mkdir p = change p new_dir"

text \<open>
  \<^verbatim>\<open>p.mkdir(parents=True, exist_ok=ok)\<close>: missing directories above \<open>p\<close> are made
  on the way; that \<open>p\<close> is there already is accepted only with \<open>ok\<close>, and only of a
  directory.
\<close>

fun make_dirs :: "bool \<Rightarrow> path \<Rightarrow> node option \<Rightarrow> error + node" where
  "make_dirs ok [] None = Inr (Dir [])"
| "make_dirs ok [] (Some (Dir es)) = (if ok then Inr (Dir es) else Inl FileExistsError)"
| "make_dirs ok [] (Some (File x)) = Inl FileExistsError"
| "make_dirs ok (c # p) None =
     (case make_dirs ok p None of Inl e \<Rightarrow> Inl e | Inr n \<Rightarrow> Inr (Dir [(c, n)]))"
| "make_dirs ok (c # p) (Some (File x)) = Inl NotADirectoryError"
| "make_dirs ok (c # p) (Some (Dir es)) =
     (case make_dirs ok p (map_of es c) of
        Inl e \<Rightarrow> Inl e
      | Inr n \<Rightarrow> Inr (Dir (AList.update c n es)))"

definition mkdir_parents :: "bool \<Rightarrow> path \<Rightarrow> node \<Rightarrow> (error + unit) \<times> node" where
  "mkdir_parents ok p fs =
     (case make_dirs ok p (Some fs) of Inl e \<Rightarrow> (Inl e, fs) | Inr fs' \<Rightarrow> (Inr (), fs'))"

text \<open>
  Writing a file (\<^verbatim>\<open>write_text\<close>, the \<^verbatim>\<open>save\<close> of an image or a document, the
  second half of a copy): the parent must exist, and a directory is not overwritten.
\<close>

fun put_file :: "content \<Rightarrow> node option \<Rightarrow> error + node option" where
  "put_file x (Some (Dir es)) = Inl IsADirectoryError"
| "put_file x (Some (File y)) = Inr (Some (File x))"
| "put_file x None = Inr (Some (File x))"

definition write_file :: "path \<Rightarrow> content \<Rightarrow> node \<Rightarrow> (error + unit) \<times> node" where
  "write_file p x = change p (put_file x)"

text \<open>\<^verbatim>\<open>p.unlink()\<close>: \<open>p\<close> must be a file.\<close>

fun remove_file :: "node option \<Rightarrow> error + node option" where
  "remove_file None = Inl FileNotFoundError"
| "remove_file (Some (Dir es)) = Inl IsADirectoryError"
| "remove_file (Some (File x)) = Inr None"

definition unlink :: "path \<Rightarrow> node \<Rightarrow> (error + unit) \<times> node" where
  "unlink p = change p remove_file"

definition read_file :: "path \<Rightarrow> node \<Rightarrow> (error + content) \<times> node" where
  "read_file p fs =
     (case node_at fs p of
        None \<Rightarrow> (Inl FileNotFoundError, fs)
      | Some (Dir es) \<Rightarrow> (Inl IsADirectoryError, fs)
      | Some (File x) \<Rightarrow> (Inr x, fs))"

text \<open>
  \<^verbatim>\<open>shutil.copy(src, dst)\<close>: a destination that is a directory stands for the file of
  the source's name in it; a file is not copied onto itself.
\<close>

definition copy :: "path \<Rightarrow> path \<Rightarrow> node \<Rightarrow> (error + unit) \<times> node" where
  "copy src dst fs =
     (let dst' = (if is_dir fs dst then dst @ [name src] else dst)
      in if src = dst' \<and> path_exists fs src then (Inl SameFileError, fs)
         else bind (read_file src fs) (\<lambda>x. write_file dst' x))"

text \<open>
  \<^verbatim>\<open>os.walk(top)\<close>, from the top down: for a directory its path, the names of its
  subdirectories and the names of its files, then the same for each subdirectory.
  Nothing for a path that is no directory.  In which order the entries of a directory
  are listed is up to the operating system; here it is the order of the list of the
  directory, and the theorems on the archive speak of its entries as a set.
\<close>

fun is_Dir :: "node \<Rightarrow> bool" where
  "is_Dir (Dir es) = True"
| "is_Dir (File x) = False"

fun os_walk :: "path \<Rightarrow> node \<Rightarrow> (path \<times> string list \<times> string list) list"
  and os_walk_entries :: "path \<Rightarrow> (string \<times> node) list \<Rightarrow> (path \<times> string list \<times> string list) list" where
  "os_walk dirpath (File x) = []"
| "os_walk dirpath (Dir es) =
     (dirpath, map fst (filter (\<lambda>e. is_Dir (snd e)) es), map fst (filter (\<lambda>e. \<not> is_Dir (snd e)) es))
       # os_walk_entries dirpath es"
| "os_walk_entries dirpath [] = []"
| "os_walk_entries dirpath ((c, n) # es) = os_walk (dirpath @ [c]) n @ os_walk_entries dirpath es"

text \<open>\<^verbatim>\<open>full.relative_to(other)\<close>: raises unless \<open>other\<close> is a prefix of \<open>full\<close>.\<close>

definition relative_to :: "path \<Rightarrow> path \<Rightarrow> error + path" where
  "relative_to full other =
     (if take (length other) full = other then Inr (drop (length other) full) else Inl ValueError)"

section \<open>The libraries\<close>

text \<open>
  Pillow and matplotlib are not part of the program; what the program needs of them is a
  parameter of the model, as it is in a given run:

  \<^item> \<open>load_default\<close> is what \<^verbatim>\<open>ImageFont.load_default()\<close> does: it gives the font or
    raises.
  \<^item> \<open>registered\<close> tells of a file name whether Pillow knows an image format for its
    extension; \<^verbatim>\<open>Image.save\<close> raises \<^verbatim>\<open>ValueError\<close> for any other name, before it
    opens the file.
  \<^item> \<open>subplots\<close> is the outcome of \<^verbatim>\<open>plt.subplots(figsize=..., dpi=100)\<close> for a size in
    inches: an exception, or none.
  \<^item> \<open>savefig\<close> is the outcome of the matplotlib calls from \<^verbatim>\<open>ax.set_xlim\<close> to
    \<^verbatim>\<open>plt.savefig\<close> for a figure and the name of its file, up to the point where the
    file is opened: an exception (for a canvas without pixels, say, or a file name with
    an extension that matplotlib does not know), or none.
\<close>

record libraries =
  load_default :: "error + font"
  registered :: "string \<Rightarrow> bool"
  subplots :: "double \<times> double \<Rightarrow> error option"
  savefig :: "figure \<Rightarrow> string \<Rightarrow> error option"

section \<open>Image Renderer A: \<^verbatim>\<open>make_uniform_image\<close>\<close>

text \<open>
  \<^verbatim>\<open>draw.text(xy, s, fill=..., font=fnt)\<close>: when the font is \<^verbatim>\<open>None\<close>, Pillow takes
  the default font, and loads it itself.  \<^verbatim>\<open>draw.rectangle(box, outline=...)\<close> has no
  such need.
\<close>

definition draw_text ::
  "libraries \<Rightarrow> int \<times> int \<Rightarrow> string \<Rightarrow> string \<Rightarrow> font option \<Rightarrow> draw_op list \<Rightarrow> error + draw_op list" where
  "draw_text lib xy s fill fnt img =
     (case fnt of
        Some f \<Rightarrow> Inr (img @ [DrawText xy s fill f])
      | None \<Rightarrow> seq (load_default lib) (\<lambda>f. Inr (img @ [DrawText xy s fill f])))"

definition draw_rectangle :: "int list \<Rightarrow> string \<Rightarrow> draw_op list \<Rightarrow> error + draw_op list" where
  "draw_rectangle box outline img = Inr (img @ [DrawRectangle box outline])"

text \<open>
  One of the three loops: for each label a box at \<open>x\<close> and the label at \<open>tx\<close>, the next
  one 40 pixels lower.  The boxes are 200 wide and 30 high.
\<close>

fun draw_boxes ::
  "libraries \<Rightarrow> int \<Rightarrow> int \<Rightarrow> font option \<Rightarrow> int \<Rightarrow> string list \<Rightarrow> draw_op list \<Rightarrow> error + draw_op list" where
  "draw_boxes lib x tx fnt y [] img = Inr img"
| "draw_boxes lib x tx fnt y (s # ss) img =
     seq (draw_rectangle [x, y, x + 200, y + 30] ''black'' img) (\<lambda>img.
     seq (draw_text lib (tx, y + 6) s ''black'' fnt img) (\<lambda>img.
     draw_boxes lib x tx fnt (y + 40) ss img))"

text \<open>The statements from \<^verbatim>\<open>Image.new\<close> to the last loop, for the font \<open>fnt\<close>.\<close>

definition uniform_image :: "libraries \<Rightarrow> font option \<Rightarrow> error + raster" where
  "uniform_image lib fnt =
     seq (draw_text lib (10, 10) ''Available Options'' ''black'' fnt []) (\<lambda>img.
     seq (draw_text lib (20, 40) ''Shirts:'' ''black'' fnt img) (\<lambda>img.
     seq (draw_boxes lib 20 25 fnt 70 [''Tan'', ''Red'', ''White'', ''Yellow''] img) (\<lambda>img.
     seq (draw_boxes lib 260 265 fnt 70 [''Black'', ''Khaki'', ''Navy''] img) (\<lambda>img.
     seq (draw_boxes lib 500 505 fnt 70 [''Blue'', ''Green'', ''Brown''] img) (\<lambda>img.
     Inr \<lparr>mode = ''RGB'', pixels = (900, 280), color = ''white'', ops = img\<rparr>)))))"

text \<open>\<^verbatim>\<open>img.save(path)\<close>: the format comes from the name of the file.\<close>

definition save_image :: "libraries \<Rightarrow> path \<Rightarrow> raster \<Rightarrow> node \<Rightarrow> (error + unit) \<times> node" where
  "save_image lib p img fs =
     (if registered lib (name p) then write_file p (Png img) fs else (Inl ValueError, fs))"

text \<open>
  The \<^verbatim>\<open>except Exception\<close> clause turns any exception of
  \<^verbatim>\<open>ImageFont.load_default()\<close> into the font \<^verbatim>\<open>None\<close>.
\<close>

definition make_uniform_image :: "libraries \<Rightarrow> path \<Rightarrow> node \<Rightarrow> (error + unit) \<times> node" where
  "make_uniform_image lib p fs =
     (let fnt = (case load_default lib of Inr f \<Rightarrow> Some f | Inl e \<Rightarrow> None)
      in case uniform_image lib fnt of
           Inl e \<Rightarrow> (Inl e, fs)
         | Inr img \<Rightarrow> save_image lib p img fs)"

section \<open>Image Renderer B: \<^verbatim>\<open>make_packed_spheres_image\<close>\<close>

text \<open>
  The statements from \<^verbatim>\<open>scale = 30\<close> to the end of the two loops, in their order: the
  sizes in pixels, the figure of that size in inches, and one circle for each row and
  column.
\<close>

definition packed_spheres_figure :: "libraries \<Rightarrow> int \<Rightarrow> int \<Rightarrow> number \<Rightarrow> error + figure" where
  "packed_spheres_figure lib rows cols radius_cm =
     (let scale = PyInt 30 in
      seq (py_mul (PyInt 2) radius_cm) (\<lambda>diameter.
      seq (py_mul radius_cm scale) (\<lambda>r_px.
      seq (seq (seq (py_mul (PyInt cols) diameter) (\<lambda>w. py_mul w scale)) py_int) (\<lambda>width_px.
      seq (seq (seq (py_mul (PyInt rows) diameter) (\<lambda>h. py_mul h scale)) py_int) (\<lambda>height_px.
      seq (py_truediv width_px 100) (\<lambda>width_in.
      seq (py_truediv height_px 100) (\<lambda>height_in.
      seq (raising (subplots lib (width_in, height_in))) (\<lambda>u.
      seq (for_each (\<lambda>i. for_each (\<lambda>j.
             seq (seq (seq (py_mul (PyInt j) diameter) (\<lambda>x. py_mul x scale)) (\<lambda>x. py_add x r_px)) (\<lambda>cx.
             seq (seq (seq (py_mul (PyInt i) diameter) (\<lambda>y. py_mul y scale)) (\<lambda>y. py_add y r_px)) (\<lambda>cy.
             Inr \<lparr>center_x = cx, center_y = cy, radius_px = r_px\<rparr>)))
             (py_range cols)) (py_range rows)) (\<lambda>circles.
      Inr \<lparr>figsize = (width_in, height_in), dpi = 100, patches = concat circles,
           xlim = (0, width_px), ylim = (0, height_px)\<rparr>)))))))))"

definition make_packed_spheres_image ::
  "libraries \<Rightarrow> path \<Rightarrow> int \<Rightarrow> int \<Rightarrow> number \<Rightarrow> node \<Rightarrow> (error + unit) \<times> node" where
  "make_packed_spheres_image lib p rows cols radius_cm fs =
     (case packed_spheres_figure lib rows cols radius_cm of
        Inl e \<Rightarrow> (Inl e, fs)
      | Inr fig \<Rightarrow>
          (case savefig lib fig (name p) of
             Some e \<Rightarrow> (Inl e, fs)
           | None \<Rightarrow> write_file p (Plot fig) fs))"

section \<open>Document Composer: \<^verbatim>\<open>create_docx\<close>\<close>

text \<open>\<^verbatim>\<open>doc.add_picture\<close> reads the image file.\<close>

definition read_image :: "path \<Rightarrow> node \<Rightarrow> (error + content) \<times> node" where
  "read_image p fs =
     (case node_at fs p of
        None \<Rightarrow> (Inl FileNotFoundError, fs)
      | Some (Dir es) \<Rightarrow> (Inl IsADirectoryError, fs)
      | Some (File (Png x)) \<Rightarrow> (Inr (Png x), fs)
      | Some (File (Plot x)) \<Rightarrow> (Inr (Plot x), fs)
      | Some (File x) \<Rightarrow> (Inl UnrecognizedImageError, fs))"

definition create_docx :: "path \<Rightarrow> path \<Rightarrow> path \<Rightarrow> node \<Rightarrow> (error + unit) \<times> node" where
  "create_docx docx_path img1 img2 fs =
     bind (read_image img1 fs) (\<lambda>pic1 fs.
     bind (read_image img2 fs) (\<lambda>pic2 fs.
     write_file docx_path (Docx (create_docx_blocks pic1 pic2)) fs))"

section \<open>Package Assembler: \<^verbatim>\<open>make_github_folder\<close>\<close>

text \<open>
  \<^verbatim>\<open>zf.write(full, arcname)\<close> adds the file at \<open>full\<close> to the open archive under the name
  \<open>arcname\<close>; a directory gets an entry without data, with the separator at the end of
  its name.  The two loops over \<^verbatim>\<open>os.walk(repo_dir)\<close> carry the entries of the archive;
  an exception ends them with the entries added so far.
\<close>

definition zf_write ::
  "node \<Rightarrow> path \<Rightarrow> string \<Rightarrow> (string \<times> content) list \<Rightarrow> (error + unit) \<times> (string \<times> content) list" where
  "zf_write fs full arcname zf =
     (case node_at fs full of
        None \<Rightarrow> (Inl FileNotFoundError, zf)
      | Some (Dir es) \<Rightarrow> (Inr (), zf @ [(arcname @ ''/'', Text [])])
      | Some (File x) \<Rightarrow> (Inr (), zf @ [(arcname, x)]))"

fun add_files ::
  "node \<Rightarrow> path \<Rightarrow> path \<Rightarrow> string list \<Rightarrow> (string \<times> content) list
     \<Rightarrow> (error + unit) \<times> (string \<times> content) list" where
  "add_files fs repo_dir dirpath [] zf = (Inr (), zf)"
| "add_files fs repo_dir dirpath (f # files) zf =
     (case relative_to (dirpath @ [f]) repo_dir of
        Inl e \<Rightarrow> (Inl e, zf)
      | Inr rel \<Rightarrow>
          bind (zf_write fs (dirpath @ [f]) (path_str rel) zf)
            (\<lambda>u zf. add_files fs repo_dir dirpath files zf))"

fun add_walk ::
  "node \<Rightarrow> path \<Rightarrow> (path \<times> string list \<times> string list) list \<Rightarrow> (string \<times> content) list
     \<Rightarrow> (error + unit) \<times> (string \<times> content) list" where
  "add_walk fs repo_dir [] zf = (Inr (), zf)"
| "add_walk fs repo_dir ((dirpath, dirs, files) # rest) zf =
     bind (add_files fs repo_dir dirpath files zf) (\<lambda>u zf. add_walk fs repo_dir rest zf)"

text \<open>
  The \<^verbatim>\<open>with zipfile.ZipFile(zip_path, "w", ...)\<close> block: opening creates the file,
  leaving the block writes the entries, also when the block raised.
\<close>

definition zip_tree :: "path \<Rightarrow> path \<Rightarrow> node \<Rightarrow> (error + unit) \<times> node" where
  "zip_tree zip_path repo_dir fs =
     bind (write_file zip_path (Zip []) fs) (\<lambda>u fs.
       (case add_walk fs repo_dir
               (case node_at fs repo_dir of None \<Rightarrow> [] | Some n \<Rightarrow> os_walk repo_dir n) [] of
          (res, zf) \<Rightarrow> bind (write_file zip_path (Zip zf) fs) (\<lambda>u fs. (res, fs))))"

definition make_github_folder ::
  "path \<Rightarrow> path \<Rightarrow> path \<Rightarrow> path \<Rightarrow> node \<Rightarrow> (error + path \<times> path) \<times> node" where
  "make_github_folder base_dir img1 img2 docx_path fs =
     (let repo_dir = base_dir @ [''github_repo''];
          images_dir = repo_dir @ [''images''];
          readme = repo_dir @ [''README.md''];
          questions_md = repo_dir @ [''QUESTIONS.md''];
          zip_path = base_dir @ [''github_repo.zip'']
      in
      bind (if path_exists fs repo_dir then rmtree repo_dir fs else (Inr (), fs)) (\<lambda>u fs.
      bind (mkdir_parents False repo_dir fs) (\<lambda>u fs.
      bind (mkdir images_dir fs) (\<lambda>u fs.
      bind (copy img1 (images_dir @ [name img1]) fs) (\<lambda>u fs.
      bind (copy img2 (images_dir @ [name img2]) fs) (\<lambda>u fs.
      bind (write_file readme (Text readme_text) fs) (\<lambda>u fs.
      bind (write_file questions_md (Text questions_md_text) fs) (\<lambda>u fs.
      bind (copy docx_path (repo_dir @ [name docx_path]) fs) (\<lambda>u fs.
      bind (if path_exists fs zip_path then unlink zip_path fs else (Inr (), fs)) (\<lambda>u fs.
      bind (zip_tree zip_path repo_dir fs) (\<lambda>u fs.
      (Inr (repo_dir, zip_path), fs))))))))))))"

section \<open>The pipeline: the first part of \<^verbatim>\<open>main\<close>\<close>

text \<open>
  The part of \<^verbatim>\<open>main\<close> that generates the artifacts.  \<open>base\<close> is the output directory
  as an absolute path.
\<close>

definition generate_artifacts :: "libraries \<Rightarrow> path \<Rightarrow> node \<Rightarrow> (error + path \<times> path) \<times> node" where
  "generate_artifacts lib base fs =
     bind (mkdir_parents True base fs) (\<lambda>u fs.
     (let img1 = base @ [''uniform_table.png''];
          img2 = base @ [''rect_package_topview_8.png''];
          docx_path = base @ [''generated_assessment.docx'']
      in
      bind (make_uniform_image lib img1 fs) (\<lambda>u fs.
      bind (make_packed_spheres_image lib img2 2 4 (PyInt 2) fs) (\<lambda>u fs.
      bind (create_docx docx_path img1 img2 fs) (\<lambda>u fs.
      make_github_folder base img1 img2 docx_path fs)))))"

section \<open>Publisher: \<^verbatim>\<open>git_init_and_push\<close>\<close>

text \<open>
  \<^verbatim>\<open>git\<close> is not part of the program: it is a parameter of the model.  A tool takes
  the command line, the working directory and the state of the world, and gives the outcome
  of the process and the new state of the world.
\<close>

datatype outcome = Exited int | NotStarted

type_synonym 'w tool = "string list \<Rightarrow> path \<Rightarrow> 'w \<Rightarrow> outcome \<times> 'w"

text \<open>
  The state of a publishing run: the world, and the processes started so far with their
  outcomes, in order.
\<close>

type_synonym 'w run_state = "'w \<times> (string list \<times> outcome) list"

definition subprocess_run :: "'w tool \<Rightarrow> string list \<Rightarrow> path \<Rightarrow> 'w run_state \<Rightarrow> outcome \<times> 'w run_state" where
  "subprocess_run tool cmd cwd s =
     (case tool cmd cwd (fst s) of (out, w') \<Rightarrow> (out, (w', snd s @ [(cmd, out)])))"

text \<open>
  The local function \<^verbatim>\<open>run\<close> of \<^verbatim>\<open>git_init_and_push\<close>:
  \<^verbatim>\<open>subprocess.run(cmd, cwd=cwd, check=True)\<close>, which raises on an exit status other
  than 0.  (The line it prints before is left out of the model.)
\<close>

definition run :: "'w tool \<Rightarrow> path \<Rightarrow> string list \<Rightarrow> 'w run_state \<Rightarrow> (error + unit) \<times> 'w run_state" where
  "run tool cwd cmd s =
     (case subprocess_run tool cmd cwd s of
        (Exited rc, s') \<Rightarrow> (if rc = 0 then Inr () else Inl (CalledProcessError cmd rc), s')
      | (NotStarted, s') \<Rightarrow> (Inl OSError, s'))"

text \<open>
  The conditional expression on the line after the commit: the condition starts
  \<^verbatim>\<open>git remote\<close> without \<^verbatim>\<open>check\<close>, and only when that process exits with status 0
  is \<^verbatim>\<open>git remote remove origin\<close> run, through \<^verbatim>\<open>run\<close>.
\<close>

definition remove_origin :: "'w tool \<Rightarrow> path \<Rightarrow> 'w run_state \<Rightarrow> (error + unit) \<times> 'w run_state" where
  "remove_origin tool cwd s =
     (case subprocess_run tool [''git'', ''remote''] cwd s of
        (NotStarted, s') \<Rightarrow> (Inl OSError, s')
      | (Exited rc, s') \<Rightarrow>
          (if rc = 0 then run tool cwd [''git'', ''remote'', ''remove'', ''origin''] s'
           else (Inr (), s')))"

definition git_init_and_push ::
  "'w tool \<Rightarrow> ('w \<Rightarrow> path \<Rightarrow> bool) \<Rightarrow> path \<Rightarrow> string \<Rightarrow> string \<Rightarrow> 'w run_state
     \<Rightarrow> (error + unit) \<times> 'w run_state" where
  "git_init_and_push tool exists repo_dir remote_url branch s =
     bind (if \<not> exists (fst s) (repo_dir @ [''.git''])
               then run tool repo_dir [''git'', ''init''] s else (Inr (), s)) (\<lambda>u s.
     bind (run tool repo_dir [''git'', ''checkout'', ''-B'', branch] s) (\<lambda>u s.
     bind (run tool repo_dir [''git'', ''add'', ''.''] s) (\<lambda>u s.
     bind (run tool repo_dir
                 [''git'', ''commit'', ''-m'', ''Add generated assessment questions''] s) (\<lambda>u s.
     bind (remove_origin tool repo_dir s) (\<lambda>u s.
     bind (run tool repo_dir [''git'', ''remote'', ''add'', ''origin'', remote_url] s) (\<lambda>u s.
     run tool repo_dir [''git'', ''push'', ''-u'', ''origin'', branch] s))))))"

text \<open>
  The whole of \<^verbatim>\<open>main\<close>: the artifacts, then the publisher when a remote was given
  (an empty string counts as none).  The \<^verbatim>\<open>except\<close> clause around the publisher
  prints a hint and raises the exception again.  The world of the publisher is the
  filesystem.
\<close>

definition main ::
  "node tool \<Rightarrow> libraries \<Rightarrow> path \<Rightarrow> string option \<Rightarrow> string \<Rightarrow> node
     \<Rightarrow> (error + unit) \<times> node run_state" where
  "main tool lib base push_repo branch fs =
     (case generate_artifacts lib base fs of
        (Inl e, fs') \<Rightarrow> (Inl e, (fs', []))
      | (Inr (repo_dir, zip_path), fs') \<Rightarrow>
          (case push_repo of
             None \<Rightarrow> (Inr (), (fs', []))
           | Some remote \<Rightarrow>
               if remote = [] then (Inr (), (fs', []))
               else git_init_and_push tool path_exists repo_dir remote branch (fs', [])))"

section \<open>Reading the tagged-line format\<close>

text \<open>
  The claims about the two outputs are stated on their lines.  The markdown file is one
  text; a paragraph of the document is a text of its own, and python-docx turns a line
  feed inside a paragraph into a line break, so a paragraph is read line by line as well.
  \<open>split_lines\<close> is Python's \<^verbatim>\<open>s.split('\n')\<close>.
\<close>

fun split_lines :: "string \<Rightarrow> string list" where
  "split_lines [] = [[]]"
| "split_lines (c # cs) =
     (if c = CHR 0x0A then [] # split_lines cs
      else (case split_lines cs of l # ls \<Rightarrow> (c # l) # ls | [] \<Rightarrow> [[c]]))"

definition starts_with :: "string \<Rightarrow> string \<Rightarrow> bool" where
  "starts_with p s = (take (length p) s = p)"

definition ends_with :: "string \<Rightarrow> string \<Rightarrow> bool" where
  "ends_with p s = (length p \<le> length s \<and> drop (length s - length p) s = p)"

fun paragraphs :: "block list \<Rightarrow> string list" where
  "paragraphs [] = []"
| "paragraphs (Paragraph s # bs) = s # paragraphs bs"
| "paragraphs (_ # bs) = paragraphs bs"

definition docx_lines :: "block list \<Rightarrow> string list" where
  "docx_lines bs = concat (map split_lines (paragraphs bs))"

definition md_lines :: "string list" where
  "md_lines = split_lines questions_md_text"

text \<open>
  A tagged line starts with \<open>@\<close>; its tag runs to the first space and its field is the
  rest.  A line that does not start with \<open>@\<close> has no tag and is its own field.
\<close>

definition tag_of :: "string \<Rightarrow> string" where
  "tag_of l = (if starts_with ''@'' l then takeWhile (\<lambda>c. c \<noteq> CHR '' '') l else [])"

definition field_of :: "string \<Rightarrow> string" where
  "field_of l = (if starts_with ''@'' l then drop 1 (dropWhile (\<lambda>c. c \<noteq> CHR '' '') l) else l)"

text \<open>
  A question record is the run of lines from a \<open>@question\<close> line to the next
  \<open>@plusmarks\<close> line, both included.
\<close>

fun records_from :: "string list option \<Rightarrow> string list \<Rightarrow> string list list" where
  "records_from cur [] = []"
| "records_from None (l # ls) =
     (if tag_of l = ''@question'' then records_from (Some [l]) ls
      else records_from None ls)"
| "records_from (Some rec) (l # ls) =
     (if tag_of l = ''@plusmarks'' then (rec @ [l]) # records_from None ls
      else records_from (Some (rec @ [l])) ls)"

definition question_records :: "string list \<Rightarrow> string list list" where
  "question_records ls = records_from None ls"

definition is_option_line :: "string \<Rightarrow> bool" where
  "is_option_line l = (tag_of l = ''@option'' \<or> tag_of l = ''@@option'')"

definition is_correct :: "string \<Rightarrow> bool" where
  "is_correct l = (tag_of l = ''@@option'')"

definition option_block :: "string list \<Rightarrow> string list" where
  "option_block rec = filter is_option_line rec"

definition option_label :: "string \<Rightarrow> string" where
  "option_label l = takeWhile (\<lambda>c. c \<noteq> CHR '' '') (field_of l)"

text \<open>
  The option block of a record as the format prescribes it: the option lines are the five
  lines after the first four, labelled (A) to (E), one of them with the doubled marker and
  four with the single one.
\<close>

definition option_block_ok :: "string list \<Rightarrow> bool" where
  "option_block_ok rec =
     (option_block rec = take 5 (drop 4 rec)
      \<and> length (option_block rec) = 5
      \<and> map option_label (option_block rec) = [''(A)'', ''(B)'', ''(C)'', ''(D)'', ''(E)'']
      \<and> length (filter (\<lambda>l. tag_of l = ''@@option'') (option_block rec)) = 1
      \<and> length (filter (\<lambda>l. tag_of l = ''@option'') (option_block rec)) = 4)"

text \<open>
  The explanation of a record: the field of its \<open>@explanation\<close> line and the untagged
  lines that follow it.
\<close>

definition explanation_of :: "string list \<Rightarrow> string" where
  "explanation_of rec =
     (case dropWhile (\<lambda>l. tag_of l \<noteq> ''@explanation'') rec of
        [] \<Rightarrow> []
      | l # ls \<Rightarrow> field_of l @ concat (takeWhile (\<lambda>l. tag_of l = []) ls))"

text \<open>
  What the second question record of the program holds: the option with the doubled
  marker is (C), the explanation ends with the dimensions that are the text of option (A).
\<close>

definition marked_and_explained :: "string list \<Rightarrow> bool" where
  "marked_and_explained rec =
     (filter is_correct (option_block rec)
        = [''@@option (C) $4 '' @ backslash @ ''times 12 '' @ backslash @ ''times 18$'']
      \<and> filter (\<lambda>l. option_label l = ''(A)'') (option_block rec)
        = [''@option (A) $4 '' @ backslash @ ''times 8 '' @ backslash @ ''times 16$'']
      \<and> ends_with
           (''So dimensions: $4 '' @ backslash @ ''times 8 '' @ backslash @ ''times 16$.'')
           (explanation_of rec))"

section \<open>Views of the filesystem, the images and a publishing run\<close>

text \<open>
  The definitions of this section are not part of the program: the theorems are stated
  and proved with them.
\<close>

subsection \<open>Entries of the filesystem\<close>

text \<open>What a path names, without what is below it.\<close>

datatype entry = FileEntry content | DirEntry

fun kind :: "node option \<Rightarrow> entry option" where
  "kind None = None"
| "kind (Some (File x)) = Some (FileEntry x)"
| "kind (Some (Dir es)) = Some DirEntry"

definition entry_at :: "node \<Rightarrow> path \<Rightarrow> entry option" where
  "entry_at fs p = kind (node_at fs p)"

fun is_Dir_opt :: "node option \<Rightarrow> bool" where
  "is_Dir_opt (Some (Dir es)) = True"
| "is_Dir_opt (Some (File x)) = False"
| "is_Dir_opt None = False"

text \<open>A tree in which no directory lists a name twice.\<close>

fun wf_node :: "node \<Rightarrow> bool" and wf_entries :: "(string \<times> node) list \<Rightarrow> bool" where
  "wf_node (File x) = True"
| "wf_node (Dir es) = (distinct (map fst es) \<and> wf_entries es)"
| "wf_entries [] = True"
| "wf_entries ((c, n) # es) = (wf_node n \<and> wf_entries es)"

text \<open>
  The files below a directory with their paths relative to \<open>q\<close>, in the order in which
  \<open>os_walk\<close> meets them, and all paths of a tree.
\<close>

fun file_entries :: "path \<Rightarrow> (string \<times> node) list \<Rightarrow> (path \<times> content) list" where
  "file_entries q [] = []"
| "file_entries q ((c, File x) # es) = (q @ [c], x) # file_entries q es"
| "file_entries q ((c, Dir ds) # es) = file_entries q es"

fun walk_files :: "path \<Rightarrow> node \<Rightarrow> (path \<times> content) list"
  and walk_entries :: "path \<Rightarrow> (string \<times> node) list \<Rightarrow> (path \<times> content) list" where
  "walk_files q (File x) = []"
| "walk_files q (Dir es) = file_entries q es @ walk_entries q es"
| "walk_entries q [] = []"
| "walk_entries q ((c, n) # es) = walk_files (q @ [c]) n @ walk_entries q es"

definition named :: "(path \<times> content) list \<Rightarrow> (string \<times> content) list" where
  "named fs = map (\<lambda>e. (path_str (fst e), snd e)) fs"

fun tree_paths :: "path \<Rightarrow> node \<Rightarrow> path list"
  and entries_paths :: "path \<Rightarrow> (string \<times> node) list \<Rightarrow> path list" where
  "tree_paths q (File x) = [q]"
| "tree_paths q (Dir es) = q # entries_paths q es"
| "entries_paths q [] = []"
| "entries_paths q ((c, n) # es) = tree_paths (q @ [c]) n @ entries_paths q es"

text \<open>
  The package directory that \<open>make_github_folder\<close> leaves, given the names and contents
  of the two images and of the document: the later copy replaces an earlier file of the
  same name, and a document named like the directory of the images is copied into it.
\<close>

definition package_tree :: "string \<Rightarrow> content \<Rightarrow> string \<Rightarrow> content \<Rightarrow> string \<Rightarrow> content \<Rightarrow> node" where
  "package_tree n1 x1 n2 x2 nd xd =
     (let images = AList.update n2 (File x2) [(n1, File x1)];
          entries = [(''images'', Dir images),
                     (''README.md'', File (Text readme_text)),
                     (''QUESTIONS.md'', File (Text questions_md_text))]
      in if nd = ''images''
         then Dir (AList.update ''images'' (Dir (AList.update nd (File xd) images)) entries)
         else Dir (AList.update nd (File xd) entries))"

subsection \<open>Outputs\<close>

text \<open>
  The blocks of the document at a path and the text of the text file at a path; nothing
  when the path holds no such file.
\<close>

definition document_at :: "node \<Rightarrow> path \<Rightarrow> block list" where
  "document_at fs p = (case node_at fs p of Some (File (Docx bs)) \<Rightarrow> bs | _ \<Rightarrow> [])"

definition text_at :: "node \<Rightarrow> path \<Rightarrow> string" where
  "text_at fs p = (case node_at fs p of Some (File (Text t)) \<Rightarrow> t | _ \<Rightarrow> [])"

text \<open>A paragraph without the line feed that it may start with.\<close>

definition without_leading_line_feed :: "string \<Rightarrow> string" where
  "without_leading_line_feed s = (if starts_with newline s then drop 1 s else s)"

text \<open>
  The images can be read and the document written: what \<open>create_docx\<close> needs of the
  filesystem.  And what \<open>make_github_folder\<close> needs: the output directory is a directory
  that holds the two images and the document as regular files, the path of the package
  directory is free or holds a directory, and the path of the archive holds no directory.
\<close>

definition is_image :: "node \<Rightarrow> path \<Rightarrow> bool" where
  "is_image fs p =
     (case node_at fs p of Some (File (Png x)) \<Rightarrow> True | Some (File (Plot x)) \<Rightarrow> True | _ \<Rightarrow> False)"

definition is_file :: "node \<Rightarrow> path \<Rightarrow> bool" where
  "is_file fs p = (case node_at fs p of Some (File x) \<Rightarrow> True | _ \<Rightarrow> False)"

definition can_compose :: "node \<Rightarrow> path \<Rightarrow> string \<Rightarrow> path \<Rightarrow> path \<Rightarrow> bool" where
  "can_compose fs base nd img1 img2 =
     (is_image fs img1 \<and> is_image fs img2 \<and> is_dir fs base \<and> \<not> is_dir fs (base @ [nd]))"

definition can_assemble :: "node \<Rightarrow> path \<Rightarrow> string \<Rightarrow> string \<Rightarrow> string \<Rightarrow> bool" where
  "can_assemble fs base n1 n2 nd =
     (is_dir fs base
      \<and> is_file fs (base @ [n1]) \<and> is_file fs (base @ [n2]) \<and> is_file fs (base @ [nd])
      \<and> (path_exists fs (base @ [''github_repo'']) \<longrightarrow> is_dir fs (base @ [''github_repo'']))
      \<and> \<not> is_dir fs (base @ [''github_repo.zip'']))"

subsection \<open>Figures\<close>

text \<open>The circle of row \<open>i\<close> and column \<open>j\<close>: the loops add the circles row by row.\<close>

definition circle_at :: "figure \<Rightarrow> nat \<Rightarrow> nat \<Rightarrow> nat \<Rightarrow> circle" where
  "circle_at fig cols i j = patches fig ! (i * cols + j)"

text \<open>
  The real number that a number of the program stands for.  The arithmetic of the
  renderer is exact for a radius that is an \<^verbatim>\<open>int\<close>, and for a radius that is a
  \<^verbatim>\<open>float\<close> \<open>m / 2 ^ k\<close> as long as its products with 60 and with the numbers of rows
  and columns have mantissas below \<open>2 ^ 53\<close>.
\<close>

fun value_of :: "number \<Rightarrow> real" where
  "value_of (PyInt i) = of_int i"
| "value_of (PyFloat (Finite x)) = x"
| "value_of (PyFloat (Infinity neg)) = 0"
| "value_of (PyFloat NaN) = 0"

fun exact_for :: "int \<Rightarrow> int \<Rightarrow> number \<Rightarrow> bool" where
  "exact_for rows cols (PyInt r) = True"
| "exact_for rows cols (PyFloat (Finite x)) =
     (\<exists>m k. x = of_int m / 2 ^ k \<and> k \<le> 1074
        \<and> 60 * \<bar>m\<bar> * max 1 (max \<bar>rows\<bar> \<bar>cols\<bar>) < 2 ^ 53)"
| "exact_for rows cols (PyFloat (Infinity neg)) = False"
| "exact_for rows cols (PyFloat NaN) = False"

subsection \<open>Publishing runs\<close>

text \<open>
  The commands of a publishing run in the order of the source: \<open>init\<close> says whether
  \<^verbatim>\<open>git init\<close> is among them, \<open>remove\<close> whether \<^verbatim>\<open>git remote remove origin\<close> is.
\<close>

definition publisher_steps :: "bool \<Rightarrow> bool \<Rightarrow> string \<Rightarrow> string \<Rightarrow> string list list" where
  "publisher_steps init remove remote_url branch =
     (if init then [[''git'', ''init'']] else []) @
     [[''git'', ''checkout'', ''-B'', branch],
      [''git'', ''add'', ''.''],
      [''git'', ''commit'', ''-m'', ''Add generated assessment questions''],
      [''git'', ''remote'']] @
     (if remove then [[''git'', ''remote'', ''remove'', ''origin'']] else []) @
     [[''git'', ''remote'', ''add'', ''origin'', remote_url],
      [''git'', ''push'', ''-u'', ''origin'', branch]]"

text \<open>The world after the given commands have run one after the other, whatever their outcomes.\<close>

fun world_after :: "'w tool \<Rightarrow> path \<Rightarrow> string list list \<Rightarrow> 'w \<Rightarrow> 'w" where
  "world_after tool cwd [] w = w"
| "world_after tool cwd (cmd # cmds) w = world_after tool cwd cmds (snd (tool cmd cwd w))"

text \<open>
  A step has failed when its process did not start or exited with a status other than 0;
  the exit status of \<^verbatim>\<open>git remote\<close> alone is no failure, since the program only
  branches on it.  \<open>surfaced\<close> is the exception that a failed step raises.
\<close>

fun failed :: "string list \<times> outcome \<Rightarrow> bool" where
  "failed (cmd, NotStarted) = True"
| "failed (cmd, Exited rc) = (rc \<noteq> 0 \<and> cmd \<noteq> [''git'', ''remote''])"

fun surfaced :: "string list \<times> outcome \<Rightarrow> error" where
  "surfaced (cmd, NotStarted) = OSError"
| "surfaced (cmd, Exited rc) = CalledProcessError cmd rc"

text \<open>
  How a run stands after the commands \<open>cmds\<close>, started from the world \<open>w\<close>: all of them
  were started in this order and none has failed, or the last of them has failed, raising
  \<open>e\<close>.  In both cases the world is what the commands made of it.
\<close>

definition completed :: "'w tool \<Rightarrow> path \<Rightarrow> 'w \<Rightarrow> string list list \<Rightarrow> 'w run_state \<Rightarrow> bool" where
  "completed tool cwd w cmds s =
     (map fst (snd s) = cmds \<and> list_all (\<lambda>p. \<not> failed p) (snd s)
      \<and> fst s = world_after tool cwd cmds w)"

definition stopped :: "'w tool \<Rightarrow> path \<Rightarrow> 'w \<Rightarrow> string list list \<Rightarrow> error \<Rightarrow> 'w run_state \<Rightarrow> bool" where
  "stopped tool cwd w cmds e s =
     (snd s \<noteq> [] \<and> map fst (snd s) = cmds \<and> list_all (\<lambda>p. \<not> failed p) (butlast (snd s))
      \<and> failed (last (snd s)) \<and> e = surfaced (last (snd s))
      \<and> fst s = world_after tool cwd cmds w)"

definition ends_as ::
  "'w tool \<Rightarrow> path \<Rightarrow> 'w \<Rightarrow> string list list \<Rightarrow> (error + unit) \<times> 'w run_state \<Rightarrow> bool" where
  "ends_as tool cwd w cmds m =
     (case m of (Inr u, s) \<Rightarrow> completed tool cwd w cmds s
              | (Inl e, s) \<Rightarrow> stopped tool cwd w cmds e s)"

definition linear_run ::
  "'w tool \<Rightarrow> path \<Rightarrow> 'w \<Rightarrow> string list list \<Rightarrow> string list list
     \<Rightarrow> (error + unit) \<times> 'w run_state \<Rightarrow> bool" where
  "linear_run tool cwd w plan1 plan2 m =
     (\<exists>cmds. ends_as tool cwd w cmds m
        \<and> (prefix cmds plan1 \<or> prefix cmds plan2)
        \<and> (case fst m of Inr u \<Rightarrow> cmds = plan1 \<or> cmds = plan2 | Inl e \<Rightarrow> True))"

section \<open>Examples\<close>

text \<open>
  A stand-in for \<^verbatim>\<open>git\<close>, with the exit statuses that git documents for the commands
  of the publisher: a repository has a branch, staged changes or none, a number of
  commits, its remotes, and the pushes that reached a remote.  \<^verbatim>\<open>git remote\<close> lists
  the remotes and succeeds in every repository; \<^verbatim>\<open>git remote remove\<close> exits with
  status 2 when there is no remote of that name, \<^verbatim>\<open>git remote add\<close> with status 3
  when there is one already; \<^verbatim>\<open>git push\<close> fails when the remote cannot be reached.
\<close>

record repo =
  initialized :: bool
  branch_name :: string
  staged :: bool
  commits :: nat
  remotes :: "(string \<times> string) list"
  reachable :: "string list"
  pushed :: "(string \<times> string) list"

definition git :: "repo tool" where
  "git cmd cwd g =
     (if cmd = [''git'', ''init''] then (Exited 0, g\<lparr>initialized := True\<rparr>)
      else if \<not> initialized g then (Exited 128, g)
      else if length cmd = 4 \<and> take 3 cmd = [''git'', ''checkout'', ''-B'']
        then (Exited 0, g\<lparr>branch_name := cmd ! 3\<rparr>)
      else if cmd = [''git'', ''add'', ''.''] then (Exited 0, g\<lparr>staged := True\<rparr>)
      else if length cmd = 4 \<and> take 3 cmd = [''git'', ''commit'', ''-m'']
        then (if staged g then (Exited 0, g\<lparr>staged := False, commits := commits g + 1\<rparr>)
              else (Exited 1, g))
      else if cmd = [''git'', ''remote''] then (Exited 0, g)
      else if length cmd = 4 \<and> take 3 cmd = [''git'', ''remote'', ''remove'']
        then (case map_of (remotes g) (cmd ! 3) of
                None \<Rightarrow> (Exited 2, g)
              | Some url \<Rightarrow> (Exited 0, g\<lparr>remotes := AList.delete (cmd ! 3) (remotes g)\<rparr>))
      else if length cmd = 5 \<and> take 3 cmd = [''git'', ''remote'', ''add'']
        then (case map_of (remotes g) (cmd ! 3) of
                None \<Rightarrow> (Exited 0, g\<lparr>remotes := remotes g @ [(cmd ! 3, cmd ! 4)]\<rparr>)
              | Some url \<Rightarrow> (Exited 3, g))
      else if length cmd = 5 \<and> take 3 cmd = [''git'', ''push'', ''-u'']
        then (case map_of (remotes g) (cmd ! 3) of
                None \<Rightarrow> (Exited 128, g)
              | Some url \<Rightarrow>
                  if url \<in> set (reachable g)
                  then (Exited 0, g\<lparr>pushed := pushed g @ [(url, cmd ! 4)]\<rparr>)
                  else (Exited 128, g))
      else (Exited 1, g))"

definition git_dir_exists :: "repo \<Rightarrow> path \<Rightarrow> bool" where
  "git_dir_exists g p = initialized g"

text \<open>
  The directory that \<open>make_github_folder\<close> has just made, and a repository that has a
  remote named origin, whose new remote cannot be reached.
\<close>

definition fresh_directory :: repo where
  "fresh_directory =
     \<lparr>initialized = False, branch_name = [], staged = False, commits = 0, remotes = [],
      reachable = [''https://example.org/new.git''], pushed = []\<rparr>"

definition offline_repository :: repo where
  "offline_repository =
     \<lparr>initialized = True, branch_name = ''main'', staged = False, commits = 3,
      remotes = [(''origin'', ''https://example.org/old.git'')],
      reachable = [], pushed = []\<rparr>"

text \<open>
  A filesystem with an output directory that holds two images, a document, and a package
  directory and an archive from an earlier run; and the same filesystem after the package
  assembler has run there.
\<close>

definition example_fs :: node where
  "example_fs =
     Dir [(''out'', Dir
       [(''table.png'', File (Text ''A'')),
        (''balls.png'', File (Text ''B'')),
        (''doc.docx'', File (Text ''D'')),
        (''github_repo'', Dir
           [(''stale.txt'', File (Text ''old'')),
            (''images'', Dir [(''old.png'', File (Text ''x''))])]),
        (''github_repo.zip'', File (Zip [(''stale.txt'', Text ''old'')]))])]"

definition example_fs' :: node where
  "example_fs' =
     Dir [(''out'', Dir
       [(''table.png'', File (Text ''A'')),
        (''balls.png'', File (Text ''B'')),
        (''doc.docx'', File (Text ''D'')),
        (''github_repo'', Dir
           [(''images'', Dir [(''table.png'', File (Text ''A'')), (''balls.png'', File (Text ''B''))]),
            (''README.md'', File (Text readme_text)),
            (''QUESTIONS.md'', File (Text questions_md_text)),
            (''doc.docx'', File (Text ''D''))]),
        (''github_repo.zip'', File (Zip
           [(''README.md'', Text readme_text),
            (''QUESTIONS.md'', Text questions_md_text),
            (''doc.docx'', Text ''D''),
            (''images/table.png'', Text ''A''),
            (''images/balls.png'', Text ''B'')]))])]"

text \<open>
  Libraries that work: the font loads, Pillow knows the extension \<^verbatim>\<open>.png\<close>, and
  matplotlib refuses only a canvas without pixels.  And the same libraries in a run in
  which the font cannot be loaded.
\<close>

definition working_libraries :: libraries where
  "working_libraries =
     \<lparr>load_default = Inr DefaultFont,
      registered = ends_with ''.png'',
      subplots = (\<lambda>size. None),
      savefig = (\<lambda>fig file. if snd (xlim fig) \<le> 0 \<or> snd (ylim fig) \<le> 0 then Some ValueError else None)\<rparr>"

definition libraries_without_font :: libraries where
  "libraries_without_font = working_libraries\<lparr>load_default := Inl OSError\<rparr>"

text \<open>
  The image that Renderer A draws with the default font, and the figure that Renderer B
  makes of two rows of four circles of radius 2.  The sizes in inches are the doubles
  nearest to 4.8 and 2.4.
\<close>

definition example_image :: raster where
  "example_image =
     \<lparr>mode = ''RGB'', pixels = (900, 280), color = ''white'',
      ops =
        [DrawText (10, 10) ''Available Options'' ''black'' DefaultFont,
         DrawText (20, 40) ''Shirts:'' ''black'' DefaultFont,
         DrawRectangle [20, 70, 220, 100] ''black'',
         DrawText (25, 76) ''Tan'' ''black'' DefaultFont,
         DrawRectangle [20, 110, 220, 140] ''black'',
         DrawText (25, 116) ''Red'' ''black'' DefaultFont,
         DrawRectangle [20, 150, 220, 180] ''black'',
         DrawText (25, 156) ''White'' ''black'' DefaultFont,
         DrawRectangle [20, 190, 220, 220] ''black'',
         DrawText (25, 196) ''Yellow'' ''black'' DefaultFont,
         DrawRectangle [260, 70, 460, 100] ''black'',
         DrawText (265, 76) ''Black'' ''black'' DefaultFont,
         DrawRectangle [260, 110, 460, 140] ''black'',
         DrawText (265, 116) ''Khaki'' ''black'' DefaultFont,
         DrawRectangle [260, 150, 460, 180] ''black'',
         DrawText (265, 156) ''Navy'' ''black'' DefaultFont,
         DrawRectangle [500, 70, 700, 100] ''black'',
         DrawText (505, 76) ''Blue'' ''black'' DefaultFont,
         DrawRectangle [500, 110, 700, 140] ''black'',
         DrawText (505, 116) ''Green'' ''black'' DefaultFont,
         DrawRectangle [500, 150, 700, 180] ''black'',
         DrawText (505, 156) ''Brown'' ''black'' DefaultFont]\<rparr>"

definition example_figure :: figure where
  "example_figure =
     \<lparr>figsize = (Finite (5404319552844595 / 2 ^ 50), Finite (5404319552844595 / 2 ^ 51)),
      dpi = 100,
      patches =
        [\<lparr>center_x = PyInt 60, center_y = PyInt 60, radius_px = PyInt 60\<rparr>,
         \<lparr>center_x = PyInt 180, center_y = PyInt 60, radius_px = PyInt 60\<rparr>,
         \<lparr>center_x = PyInt 300, center_y = PyInt 60, radius_px = PyInt 60\<rparr>,
         \<lparr>center_x = PyInt 420, center_y = PyInt 60, radius_px = PyInt 60\<rparr>,
         \<lparr>center_x = PyInt 60, center_y = PyInt 180, radius_px = PyInt 60\<rparr>,
         \<lparr>center_x = PyInt 180, center_y = PyInt 180, radius_px = PyInt 60\<rparr>,
         \<lparr>center_x = PyInt 300, center_y = PyInt 180, radius_px = PyInt 60\<rparr>,
         \<lparr>center_x = PyInt 420, center_y = PyInt 180, radius_px = PyInt 60\<rparr>],
      xlim = (0, 480),
      ylim = (0, 240)\<rparr>"

text \<open>
  The figure that Renderer B makes of one row of two circles of radius 1/8.  The sizes
  in inches are the doubles nearest to 0.15 and 0.07.
\<close>

definition small_figure :: figure where
  "small_figure =
     \<lparr>figsize = (Finite (5404319552844595 / 2 ^ 55), Finite (5044031582654956 / 2 ^ 56)),
      dpi = 100,
      patches =
        [\<lparr>center_x = PyFloat (Finite (15 / 4)), center_y = PyFloat (Finite (15 / 4)),
          radius_px = PyFloat (Finite (15 / 4))\<rparr>,
         \<lparr>center_x = PyFloat (Finite (45 / 4)), center_y = PyFloat (Finite (15 / 4)),
          radius_px = PyFloat (Finite (15 / 4))\<rparr>],
      xlim = (0, 15),
      ylim = (0, 7)\<rparr>"

text \<open>The filesystem that a run of the pipeline leaves on an empty disk.\<close>

definition pipeline_fs :: node where
  "pipeline_fs =
     Dir [(''out'', Dir
       [(''uniform_table.png'', File (Png example_image)),
        (''rect_package_topview_8.png'', File (Plot example_figure)),
        (''generated_assessment.docx'', File (Docx
           (create_docx_blocks (Png example_image) (Plot example_figure)))),
        (''github_repo'', Dir
           [(''images'', Dir
              [(''uniform_table.png'', File (Png example_image)),
               (''rect_package_topview_8.png'', File (Plot example_figure))]),
            (''README.md'', File (Text readme_text)),
            (''QUESTIONS.md'', File (Text questions_md_text)),
            (''generated_assessment.docx'', File (Docx
               (create_docx_blocks (Png example_image) (Plot example_figure))))]),
        (''github_repo.zip'', File (Zip
           [(''README.md'', Text readme_text),
            (''QUESTIONS.md'', Text questions_md_text),
            (''generated_assessment.docx'', Docx
               (create_docx_blocks (Png example_image) (Plot example_figure))),
            (''images/uniform_table.png'', Png example_image),
            (''images/rect_package_topview_8.png'', Plot example_figure)]))])]"

text \<open>
  Libraries that work for the calls of the pipeline, and an output directory on which
  the pipeline can run: it exists or can be made, the paths of the three artifacts and
  of the archive hold no directory, and the path of the package directory holds nothing
  or a directory.
\<close>

definition libraries_work :: "libraries \<Rightarrow> bool" where
  "libraries_work lib =
     (load_default lib = Inr DefaultFont
      \<and> registered lib ''uniform_table.png''
      \<and> subplots lib (figsize example_figure) = None
      \<and> savefig lib example_figure ''rect_package_topview_8.png'' = None)"

definition ready :: "node \<Rightarrow> path \<Rightarrow> bool" where
  "ready fs base =
     (is_dir fs base
      \<and> \<not> is_dir fs (base @ [''uniform_table.png''])
      \<and> \<not> is_dir fs (base @ [''rect_package_topview_8.png''])
      \<and> \<not> is_dir fs (base @ [''generated_assessment.docx''])
      \<and> (path_exists fs (base @ [''github_repo'']) \<longrightarrow> is_dir fs (base @ [''github_repo'']))
      \<and> \<not> is_dir fs (base @ [''github_repo.zip'']))"

definition valid_output_directory :: "node \<Rightarrow> path \<Rightarrow> bool" where
  "valid_output_directory fs base =
     (case mkdir_parents True base fs of
        (Inr u, fs0) \<Rightarrow> ready fs0 base
      | (Inl e, fs0) \<Rightarrow> False)"

section \<open>Lemmas on the hard-coded content\<close>

lemma split_lines_no_nl: "CHR 0x0A \<notin> set l \<Longrightarrow> split_lines l = [l]"
  by (induction l) auto

lemma split_lines_line:
  "CHR 0x0A \<notin> set l \<Longrightarrow> split_lines (l @ CHR 0x0A # rest) = l # split_lines rest"
  by (induction l) auto

lemma split_lines_nl: "split_lines (CHR 0x0A # cs) = [] # split_lines cs"
  by simp

lemma split_lines_unlines:
  "list_all (\<lambda>l. CHR 0x0A \<notin> set l) ls \<Longrightarrow>
     split_lines (concat (map (\<lambda>l. l @ newline) ls)) = ls @ [[]]"
  by (induction ls) (auto simp: split_lines_line)

text \<open>The lines of \<^verbatim>\<open>QUESTIONS.md\<close>; the last one is empty, after the final line feed.\<close>

lemma md_lines_eq: "md_lines =
    [''@title Central Middle '' @ em_dash @ '' Derived Assessment'',
     ''@description Two generated quantitative math questions similar to the base examples.'',
     [],
     ''// Question 1'',
     ''@question Each student at Riverside Prep chooses a uniform consisting of 1 shirt, 1 pair of pants, and 1 hat. The table shows the available options for each item. How many different complete uniforms are possible?'',
     ''@instruction Select the number of possible uniform combinations from the options.'',
     ''@difficulty easy'',
     ''@Order 1'',
     ''@option (A) 18'',
     ''@option (B) 24'',
     ''@@option (C) 36'',
     ''@option (D) 48'',
     ''@option (E) 72'',
     ''@explanation '',
     ''There are 4 shirt choices, 3 pants choices, and 3 hat choices. Total combinations = 4 '' @ times_sign @ '' 3 '' @ times_sign @ '' 3 = 36.'',
     ''@subject Quantitative Math'',
     ''@unit Numbers and Operations'',
     ''@topic Combinations / Counting'',
     ''@plusmarks 1'',
     [],
     ''// Question 2'',
     ''@question The top view of a rectangular box containing 8 identical tightly packed spherical balls arranged in two rows of four is shown. If each ball has radius $2$ cm, which of the following is closest to the dimensions (height '' @ times_sign @ '' width '' @ times_sign @ '' length), in centimeters, of the rectangular package?'',
     ''@instruction Choose the correct dimensions from the options.'',
     ''@difficulty moderate'',
     ''@Order 2'',
     ''@option (A) $4 '' @ backslash @ ''times 8 '' @ backslash @ ''times 16$'',
     ''@option (B) $2 '' @ backslash @ ''times 8 '' @ backslash @ ''times 16$'',
     ''@@option (C) $4 '' @ backslash @ ''times 12 '' @ backslash @ ''times 18$'',
     ''@option (D) $6 '' @ backslash @ ''times 8 '' @ backslash @ ''times 16$'',
     ''@option (E) $8 '' @ backslash @ ''times 12 '' @ backslash @ ''times 24$'',
     ''@explanation '',
     ''Top view shows two rows and four columns of circles (diameter = 4 cm). Width (short side) = 2 rows '' @ times_sign @ '' 4 cm = 8 cm. Length = 4 columns '' @ times_sign @ '' 4 cm = 16 cm. Height must accommodate one layer of balls: diameter = 4 cm. So dimensions: $4 '' @ backslash @ ''times 8 '' @ backslash @ ''times 16$.'',
     ''@subject Quantitative Math'',
     ''@unit Geometry and Measurement'',
     ''@topic Solid Figures / Coordinate Geometry'',
     ''@plusmarks 1''] @ [[]]"
  (is "_ = ?L @ _")
proof -
  have a: "questions_md_text = concat (map (\<lambda>l. l @ newline) ?L)"
    unfolding questions_md_text_def by simp
  have b: "list_all (\<lambda>l. CHR 0x0A \<notin> set l) ?L"
    by simp
  show ?thesis
    unfolding md_lines_def a by (rule split_lines_unlines [OF b])
qed

text \<open>
  The lines of the document's paragraphs.  The paragraph of the comment and the two
  \<open>@question\<close> paragraphs start with a line feed, which gives an empty line before each.
\<close>

lemma docx_lines_eq: "docx_lines (create_docx_blocks pic1 pic2) =
    [''@title Central Middle '' @ em_dash @ '' Derived Assessment'',
     ''@description Two generated quantitative math questions similar to the base examples.'',
     [],
     ''// Use this block for each question when adding Multiple Choice Questions (MCQ)'',
     [],
     ''@question Each student at Riverside Prep chooses a uniform consisting of 1 shirt, 1 pair of pants, and 1 hat. The table shows the available options for each item. How many different complete uniforms are possible?'',
     ''@instruction Select the number of possible uniform combinations from the options.'',
     ''@difficulty easy'',
     ''@Order 1'',
     ''@option (A) 18'',
     ''@option (B) 24'',
     ''@@option (C) 36'',
     ''@option (D) 48'',
     ''@option (E) 72'',
     ''@explanation '',
     ''There are 4 shirt choices, 3 pants choices, and 3 hat choices. Total combinations = 4 '' @ times_sign @ '' 3 '' @ times_sign @ '' 3 = 36.'',
     ''@subject Quantitative Math'',
     ''@unit Numbers and Operations'',
     ''@topic Combinations / Counting'',
     ''@plusmarks 1'',
     [],
     ''@question The top view of a rectangular box containing 8 identical tightly packed spherical balls arranged in two rows of four is shown. If each ball has radius $2$ cm, which of the following is closest to the dimensions (height '' @ times_sign @ '' width '' @ times_sign @ '' length), in centimeters, of the rectangular package?'',
     ''@instruction Choose the correct dimensions from the options.'',
     ''@difficulty moderate'',
     ''@Order 2'',
     ''@option (A) $4 '' @ backslash @ ''times 8 '' @ backslash @ ''times 16$'',
     ''@option (B) $2 '' @ backslash @ ''times 8 '' @ backslash @ ''times 16$'',
     ''@@option (C) $4 '' @ backslash @ ''times 12 '' @ backslash @ ''times 18$'',
     ''@option (D) $6 '' @ backslash @ ''times 8 '' @ backslash @ ''times 16$'',
     ''@option (E) $8 '' @ backslash @ ''times 12 '' @ backslash @ ''times 24$'',
     ''@explanation '',
     ''Top view shows two rows and four columns of circles (diameter = 4 cm). Width (short side) = 2 rows '' @ times_sign @ '' 4 cm = 8 cm. Length = 4 columns '' @ times_sign @ '' 4 cm = 16 cm. Height must accommodate one layer of balls: diameter = 4 cm. So dimensions: $4 '' @ backslash @ ''times 8 '' @ backslash @ ''times 16$.'',
     ''@subject Quantitative Math'',
     ''@unit Geometry and Measurement'',
     ''@topic Solid Figures / Coordinate Geometry'',
     ''@plusmarks 1'']"
  unfolding docx_lines_def create_docx_blocks_def
  by (simp add: split_lines_no_nl split_lines_nl del: split_lines.simps(2))

lemmas reading_defs = question_records_def tag_of_def field_of_def starts_with_def

lemma md_records: "question_records md_lines =
    [[''@question Each student at Riverside Prep chooses a uniform consisting of 1 shirt, 1 pair of pants, and 1 hat. The table shows the available options for each item. How many different complete uniforms are possible?'',
      ''@instruction Select the number of possible uniform combinations from the options.'',
      ''@difficulty easy'',
      ''@Order 1'',
      ''@option (A) 18'',
      ''@option (B) 24'',
      ''@@option (C) 36'',
      ''@option (D) 48'',
      ''@option (E) 72'',
      ''@explanation '',
      ''There are 4 shirt choices, 3 pants choices, and 3 hat choices. Total combinations = 4 '' @ times_sign @ '' 3 '' @ times_sign @ '' 3 = 36.'',
      ''@subject Quantitative Math'',
      ''@unit Numbers and Operations'',
      ''@topic Combinations / Counting'',
      ''@plusmarks 1''],
     [''@question The top view of a rectangular box containing 8 identical tightly packed spherical balls arranged in two rows of four is shown. If each ball has radius $2$ cm, which of the following is closest to the dimensions (height '' @ times_sign @ '' width '' @ times_sign @ '' length), in centimeters, of the rectangular package?'',
      ''@instruction Choose the correct dimensions from the options.'',
      ''@difficulty moderate'',
      ''@Order 2'',
      ''@option (A) $4 '' @ backslash @ ''times 8 '' @ backslash @ ''times 16$'',
      ''@option (B) $2 '' @ backslash @ ''times 8 '' @ backslash @ ''times 16$'',
      ''@@option (C) $4 '' @ backslash @ ''times 12 '' @ backslash @ ''times 18$'',
      ''@option (D) $6 '' @ backslash @ ''times 8 '' @ backslash @ ''times 16$'',
      ''@option (E) $8 '' @ backslash @ ''times 12 '' @ backslash @ ''times 24$'',
      ''@explanation '',
      ''Top view shows two rows and four columns of circles (diameter = 4 cm). Width (short side) = 2 rows '' @ times_sign @ '' 4 cm = 8 cm. Length = 4 columns '' @ times_sign @ '' 4 cm = 16 cm. Height must accommodate one layer of balls: diameter = 4 cm. So dimensions: $4 '' @ backslash @ ''times 8 '' @ backslash @ ''times 16$.'',
      ''@subject Quantitative Math'',
      ''@unit Geometry and Measurement'',
      ''@topic Solid Figures / Coordinate Geometry'',
      ''@plusmarks 1'']]"
  unfolding md_lines_eq by (simp add: reading_defs)

lemma docx_records: "question_records (docx_lines (create_docx_blocks pic1 pic2)) =
    [[''@question Each student at Riverside Prep chooses a uniform consisting of 1 shirt, 1 pair of pants, and 1 hat. The table shows the available options for each item. How many different complete uniforms are possible?'',
      ''@instruction Select the number of possible uniform combinations from the options.'',
      ''@difficulty easy'',
      ''@Order 1'',
      ''@option (A) 18'',
      ''@option (B) 24'',
      ''@@option (C) 36'',
      ''@option (D) 48'',
      ''@option (E) 72'',
      ''@explanation '',
      ''There are 4 shirt choices, 3 pants choices, and 3 hat choices. Total combinations = 4 '' @ times_sign @ '' 3 '' @ times_sign @ '' 3 = 36.'',
      ''@subject Quantitative Math'',
      ''@unit Numbers and Operations'',
      ''@topic Combinations / Counting'',
      ''@plusmarks 1''],
     [''@question The top view of a rectangular box containing 8 identical tightly packed spherical balls arranged in two rows of four is shown. If each ball has radius $2$ cm, which of the following is closest to the dimensions (height '' @ times_sign @ '' width '' @ times_sign @ '' length), in centimeters, of the rectangular package?'',
      ''@instruction Choose the correct dimensions from the options.'',
      ''@difficulty moderate'',
      ''@Order 2'',
      ''@option (A) $4 '' @ backslash @ ''times 8 '' @ backslash @ ''times 16$'',
      ''@option (B) $2 '' @ backslash @ ''times 8 '' @ backslash @ ''times 16$'',
      ''@@option (C) $4 '' @ backslash @ ''times 12 '' @ backslash @ ''times 18$'',
      ''@option (D) $6 '' @ backslash @ ''times 8 '' @ backslash @ ''times 16$'',
      ''@option (E) $8 '' @ backslash @ ''times 12 '' @ backslash @ ''times 24$'',
      ''@explanation '',
      ''Top view shows two rows and four columns of circles (diameter = 4 cm). Width (short side) = 2 rows '' @ times_sign @ '' 4 cm = 8 cm. Length = 4 columns '' @ times_sign @ '' 4 cm = 16 cm. Height must accommodate one layer of balls: diameter = 4 cm. So dimensions: $4 '' @ backslash @ ''times 8 '' @ backslash @ ''times 16$.'',
      ''@subject Quantitative Math'',
      ''@unit Geometry and Measurement'',
      ''@topic Solid Figures / Coordinate Geometry'',
      ''@plusmarks 1'']]"
  unfolding docx_lines_eq by (simp add: reading_defs)

lemma stripped_records:
  "question_records (map without_leading_line_feed (paragraphs (create_docx_blocks pic1 pic2))) =
    [[''@question Each student at Riverside Prep chooses a uniform consisting of 1 shirt, 1 pair of pants, and 1 hat. The table shows the available options for each item. How many different complete uniforms are possible?'',
      ''@instruction Select the number of possible uniform combinations from the options.'',
      ''@difficulty easy'',
      ''@Order 1'',
      ''@option (A) 18'',
      ''@option (B) 24'',
      ''@@option (C) 36'',
      ''@option (D) 48'',
      ''@option (E) 72'',
      ''@explanation '',
      ''There are 4 shirt choices, 3 pants choices, and 3 hat choices. Total combinations = 4 '' @ times_sign @ '' 3 '' @ times_sign @ '' 3 = 36.'',
      ''@subject Quantitative Math'',
      ''@unit Numbers and Operations'',
      ''@topic Combinations / Counting'',
      ''@plusmarks 1''],
     [''@question The top view of a rectangular box containing 8 identical tightly packed spherical balls arranged in two rows of four is shown. If each ball has radius $2$ cm, which of the following is closest to the dimensions (height '' @ times_sign @ '' width '' @ times_sign @ '' length), in centimeters, of the rectangular package?'',
      ''@instruction Choose the correct dimensions from the options.'',
      ''@difficulty moderate'',
      ''@Order 2'',
      ''@option (A) $4 '' @ backslash @ ''times 8 '' @ backslash @ ''times 16$'',
      ''@option (B) $2 '' @ backslash @ ''times 8 '' @ backslash @ ''times 16$'',
      ''@@option (C) $4 '' @ backslash @ ''times 12 '' @ backslash @ ''times 18$'',
      ''@option (D) $6 '' @ backslash @ ''times 8 '' @ backslash @ ''times 16$'',
      ''@option (E) $8 '' @ backslash @ ''times 12 '' @ backslash @ ''times 24$'',
      ''@explanation '',
      ''Top view shows two rows and four columns of circles (diameter = 4 cm). Width (short side) = 2 rows '' @ times_sign @ '' 4 cm = 8 cm. Length = 4 columns '' @ times_sign @ '' 4 cm = 16 cm. Height must accommodate one layer of balls: diameter = 4 cm. So dimensions: $4 '' @ backslash @ ''times 8 '' @ backslash @ ''times 16$.'',
      ''@subject Quantitative Math'',
      ''@unit Geometry and Measurement'',
      ''@topic Solid Figures / Coordinate Geometry'',
      ''@plusmarks 1'']]"
  by (simp add: create_docx_blocks_def without_leading_line_feed_def reading_defs)

lemma paragraph_records:
  "question_records (paragraphs (create_docx_blocks pic1 pic2)) = []"
  by (simp add: create_docx_blocks_def reading_defs)

section \<open>Lemmas on the filesystem\<close>

lemma lookup_None [simp]: "lookup p None = None"
  by (cases p) auto

lemma lookup_File [simp]: "lookup p (Some (File x)) = (if p = [] then Some (File x) else None)"
  by (cases p) auto

lemma lookup_append: "lookup (p @ q) n = lookup q (lookup p n)"
proof (induction p arbitrary: n)
  case Nil
  show ?case by simp
next
  case (Cons c p)
  show ?case
  proof (cases n)
    case None
    then show ?thesis by simp
  next
    case (Some t)
    with Cons show ?thesis by (cases t) auto
  qed
qed

lemma map_of_delete_same [simp]: "map_of (AList.delete c es) c = None"
  by (simp add: delete_conv')

lemma alter_under:
  "alter (p @ q) f n = Inr n' \<Longrightarrow> alter q f (lookup p n) = Inr (lookup p n')"
proof (induction p arbitrary: n n')
  case Nil
  then show ?case by simp
next
  case (Cons c p)
  show ?case
  proof (cases n)
    case None
    with Cons.prems show ?thesis by simp
  next
    case (Some t)
    show ?thesis
    proof (cases t)
      case (File x)
      with Some Cons.prems show ?thesis by simp
    next
      case (Dir es)
      with Some Cons.prems obtain m where
        m: "alter (p @ q) f (map_of es c) = Inr m"
        by (auto split: sum.splits)
      from Cons.IH [OF m] have ih: "alter q f (lookup p (map_of es c)) = Inr (lookup p m)" .
      from Some Dir m Cons.prems have "lookup (c # p) n' = lookup p m"
        by (cases m) (auto simp: update_conv')
      with ih Some Dir show ?thesis by simp
    qed
  qed
qed

lemma alter_frame:
  "alter (p @ a # q) f n = Inr n' \<Longrightarrow> a \<noteq> b \<Longrightarrow> lookup (p @ b # q') n' = lookup (p @ b # q') n"
proof (induction p arbitrary: n n')
  case Nil
  show ?case
  proof (cases n)
    case None
    with Nil show ?thesis by simp
  next
    case (Some t)
    with Nil show ?thesis
      by (cases t) (auto split: sum.splits option.splits simp: update_conv' delete_conv')
  qed
next
  case (Cons c p)
  show ?case
  proof (cases n)
    case None
    with Cons.prems show ?thesis by simp
  next
    case (Some t)
    show ?thesis
    proof (cases t)
      case (File x)
      with Some Cons.prems show ?thesis by simp
    next
      case (Dir es)
      with Some Cons.prems obtain m where
        m: "alter (p @ a # q) f (map_of es c) = Inr m"
        by (auto split: sum.splits)
      from Cons.IH [OF m Cons.prems(2)]
      have ih: "lookup (p @ b # q') m = lookup (p @ b # q') (map_of es c)" .
      from Some Dir m Cons.prems have "lookup ((c # p) @ b # q') n' = lookup (p @ b # q') m"
        by (cases m) (auto simp: update_conv')
      with ih Some Dir show ?thesis by simp
    qed
  qed
qed

lemma make_dirs_fresh:
  "make_dirs False p n = Inr n' \<Longrightarrow> lookup p (Some n') = Some (Dir [])"
proof (induction p arbitrary: n n')
  case Nil
  show ?case
  proof (cases n)
    case None
    with Nil show ?thesis by simp
  next
    case (Some t)
    with Nil show ?thesis by (cases t) auto
  qed
next
  case (Cons c p)
  show ?case
  proof (cases n)
    case None
    with Cons.prems obtain m where m: "make_dirs False p None = Inr m" and n': "n' = Dir [(c, m)]"
      by (auto split: sum.splits)
    from Cons.IH [OF m] n' show ?thesis by simp
  next
    case (Some t)
    show ?thesis
    proof (cases t)
      case (File x)
      with Some Cons.prems show ?thesis by simp
    next
      case (Dir es)
      with Some Cons.prems obtain m where
        m: "make_dirs False p (map_of es c) = Inr m" and n': "n' = Dir (AList.update c m es)"
        by (auto split: sum.splits)
      from Cons.IH [OF m] n' show ?thesis by (simp add: update_conv')
    qed
  qed
qed

lemma bind_Inr:
  "bind m f = (Inr y, s') \<longleftrightarrow> (\<exists>x s. m = (Inr x, s) \<and> f x s = (Inr y, s'))"
  by (cases m) (auto simp: bind_def split: sum.splits)

lemma change_Inr:
  "change p f fs = (Inr u, fs') \<longleftrightarrow> alter p f (Some fs) = Inr (Some fs')"
  by (auto simp: change_def split: sum.splits option.splits)

lemma change_under:
  "change (p @ q) f fs = (Inr u, fs') \<Longrightarrow> Inr (node_at fs' p) = alter q f (node_at fs p)"
  unfolding change_Inr node_at_def by (rule alter_under [symmetric])

lemma change_frame:
  "change (p @ a # q) f fs = (Inr u, fs') \<Longrightarrow> a \<noteq> b \<Longrightarrow> node_at fs' (p @ b # q') = node_at fs (p @ b # q')"
  unfolding change_Inr node_at_def by (rule alter_frame)

lemma node_at_append: "node_at fs (p @ q) = lookup q (node_at fs p)"
  by (simp add: node_at_def lookup_append)

lemma is_dir_append: "is_dir fs (p @ q) = is_Dir_opt (lookup q (node_at fs p))"
  unfolding is_dir_def node_at_append
  by (cases "lookup q (node_at fs p)") (auto split: node.splits)

lemma read_file_Inr:
  "read_file p fs = (Inr x, s) \<longleftrightarrow> s = fs \<and> node_at fs p = Some (File x)"
  by (auto simp: read_file_def split: option.splits node.splits)

lemma copy_under:
  assumes "copy src (p @ q) fs = (Inr u, fs')"
  shows "\<exists>x. Inr (node_at fs' p) =
              alter (if is_Dir_opt (lookup q (node_at fs p)) then q @ [name src] else q)
                (put_file x) (node_at fs p)"
proof (cases "is_Dir_opt (lookup q (node_at fs p))")
  case True
  with assms obtain x where "write_file (p @ (q @ [name src])) x fs = (Inr u, fs')"
    by (auto simp: copy_def Let_def is_dir_append bind_Inr read_file_Inr split: if_splits)
  then have "Inr (node_at fs' p) = alter (q @ [name src]) (put_file x) (node_at fs p)"
    unfolding write_file_def by (rule change_under)
  with True show ?thesis by auto
next
  case False
  with assms obtain x where "write_file (p @ q) x fs = (Inr u, fs')"
    by (auto simp: copy_def Let_def is_dir_append bind_Inr read_file_Inr split: if_splits)
  then have "Inr (node_at fs' p) = alter q (put_file x) (node_at fs p)"
    unfolding write_file_def by (rule change_under)
  with False show ?thesis by auto
qed

lemma named_simps [simp]: "named [] = []" "named (e # es) = (path_str (fst e), snd e) # named es"
  "named (xs @ ys) = named xs @ named ys"
  by (simp_all add: named_def)

lemma add_walk_append:
  "add_walk fs rd (xs @ ys) zf = bind (add_walk fs rd xs zf) (\<lambda>u zf. add_walk fs rd ys zf)"
proof (induction xs arbitrary: zf)
  case Nil
  show ?case by (simp add: bind_def)
next
  case (Cons a xs)
  obtain d ds fs' where a: "a = (d, ds, fs')" by (cases a) auto
  show ?case
    unfolding a
    by (cases "add_files fs rd d fs' zf") (auto simp: bind_def Cons split: sum.splits)
qed

lemma add_files_entries:
  assumes "take (length rd) d = rd"
    and "\<And>c n. (c, n) \<in> set es \<Longrightarrow> node_at fs (d @ [c]) = Some n"
  shows "add_files fs rd d (map fst (filter (\<lambda>e. \<not> is_Dir (snd e)) es)) zf =
           (Inr (), zf @ named (file_entries (drop (length rd) d) es))"
  using assms(2)
proof (induction es arbitrary: zf)
  case Nil
  show ?case by simp
next
  case (Cons e es)
  obtain c n where e: "e = (c, n)" by (cases e) auto
  have here: "node_at fs (d @ [c]) = Some n"
    using Cons.prems e by simp
  have rest: "\<And>c n. (c, n) \<in> set es \<Longrightarrow> node_at fs (d @ [c]) = Some n"
    using Cons.prems by simp
  have rel: "relative_to (d @ [c]) rd = Inr (drop (length rd) d @ [c])"
    using assms(1) by (simp add: relative_to_def) (metis append_take_drop_id length_take min.cobounded1 take_all_iff take_append)
  show ?case
  proof (cases n)
    case (File x)
    with e here rel Cons.IH [OF rest] show ?thesis
      by (simp add: bind_def zf_write_def)
  next
    case (Dir ds)
    with e Cons.IH [OF rest] show ?thesis by simp
  qed
qed

lemma take_prefix_snoc: "take (length rd) d = rd \<Longrightarrow> take (length rd) (d @ [c]) = rd"
  by (metis append_take_drop_id length_take min.cobounded1 take_all_iff take_append append_Nil2 take_0 diff_is_0_eq)

lemma drop_prefix_snoc: "take (length rd) d = rd \<Longrightarrow> drop (length rd) (d @ [c]) = drop (length rd) d @ [c]"
  by (metis append_take_drop_id length_take min.cobounded1 drop_append diff_is_0_eq drop_0 take_all_iff)

lemma wf_entries_iff: "wf_entries es \<longleftrightarrow> (\<forall>e \<in> set es. wf_node (snd e))"
  by (induction es) auto

lemma dir_child:
  assumes "node_at fs d = Some (Dir es)" and "distinct (map fst es)" and "(c, n) \<in> set es"
  shows "node_at fs (d @ [c]) = Some n"
  using assms by (simp add: node_at_append)

lemma add_walk_os_walk:
  "wf_node t \<Longrightarrow> take (length rd) d = rd \<Longrightarrow> node_at fs d = Some t \<Longrightarrow>
     add_walk fs rd (os_walk d t) zf = (Inr (), zf @ named (walk_files (drop (length rd) d) t))"
  "wf_entries es \<Longrightarrow> take (length rd) d = rd \<Longrightarrow>
     (\<And>c n. (c, n) \<in> set es \<Longrightarrow> node_at fs (d @ [c]) = Some n) \<Longrightarrow>
     add_walk fs rd (os_walk_entries d es) zf = (Inr (), zf @ named (walk_entries (drop (length rd) d) es))"
proof (induction d t and d es arbitrary: zf and zf rule: os_walk_os_walk_entries.induct)
  case (1 d x)
  show ?case by simp
next
  case (2 d es)
  have kids: "\<And>c n. (c, n) \<in> set es \<Longrightarrow> node_at fs (d @ [c]) = Some n"
    using 2(2,4) by (auto intro: dir_child)
  have files: "add_files fs rd d (map fst (filter (\<lambda>e. \<not> is_Dir (snd e)) es)) zf =
           (Inr (), zf @ named (file_entries (drop (length rd) d) es))"
    by (rule add_files_entries [OF 2(3) kids])
  from 2(2) have "wf_entries es" by simp
  from 2(1) [OF this 2(3) kids] files show ?case
    by (simp add: bind_def)
next
  case (3 d)
  show ?case by simp
next
  case (4 d c n es)
  have n: "node_at fs (d @ [c]) = Some n"
    using 4(5) by simp
  have a: "add_walk fs rd (os_walk (d @ [c]) n) zf =
      (Inr (), zf @ named (walk_files (drop (length rd) d @ [c]) n))"
    using 4(1) [OF _ take_prefix_snoc [OF 4(4)] n, of zf] 4(3)
    unfolding drop_prefix_snoc [OF 4(4)] by simp
  have b: "\<And>zf. add_walk fs rd (os_walk_entries d es) zf =
      (Inr (), zf @ named (walk_entries (drop (length rd) d) es))"
    using 4(2) [OF _ 4(4)] 4(3,5) by simp
  show ?case
    by (simp add: add_walk_append a b bind_def)
qed

lemma set_file_entries:
  "set (file_entries q es) = {(q @ [c], x) | c x. (c, File x) \<in> set es}"
proof (induction es)
  case Nil
  show ?case by simp
next
  case (Cons e es)
  obtain c n where e: "e = (c, n)" by (cases e) auto
  show ?case unfolding e using Cons by (cases n) auto
qed

lemma lookup_Dir_Cons:
  "distinct (map fst es) \<Longrightarrow>
     lookup (c # p) (Some (Dir es)) = Some m \<longleftrightarrow> (\<exists>n. (c, n) \<in> set es \<and> lookup p (Some n) = Some m)"
proof (cases "map_of es c")
  case None
  then have "lookup (c # p) (Some (Dir es)) = None"
    by simp
  moreover have "(c, n) \<notin> set es" for n
    using None by (force simp: map_of_eq_None_iff)
  ultimately show ?thesis by simp
next
  case (Some n)
  assume d: "distinct (map fst es)"
  have "(c, n') \<in> set es \<longleftrightarrow> n' = n" for n'
    using Some d by (metis map_of_SomeD map_of_is_SomeI option.inject)
  with Some show ?thesis by simp
qed

lemma set_walk_files:
  "wf_node t \<Longrightarrow>
     set (walk_files q t) = {(q @ p, x) | p x. p \<noteq> [] \<and> lookup p (Some t) = Some (File x)}"
  "wf_entries es \<Longrightarrow>
     set (walk_entries q es) =
       {(q @ c # p, x) | c n p x. (c, n) \<in> set es \<and> p \<noteq> [] \<and> lookup p (Some n) = Some (File x)}"
proof (induction q t and q es rule: walk_files_walk_entries.induct)
  case (1 q x)
  show ?case by simp
next
  case (2 q es)
  then have d: "distinct (map fst es)" and w: "wf_entries es" by simp_all
  have "{(q @ p, x) | p x. p \<noteq> [] \<and> lookup p (Some (Dir es)) = Some (File x)}
      = {(q @ c # p, x) | c p x. lookup (c # p) (Some (Dir es)) = Some (File x)}"
    by (auto simp: neq_Nil_conv)
  also have "\<dots> = {(q @ c # p, x) | c p x. \<exists>n. (c, n) \<in> set es \<and> lookup p (Some n) = Some (File x)}"
    unfolding lookup_Dir_Cons [OF d] ..
  also have "\<dots> = {(q @ [c], x) | c x. (c, File x) \<in> set es}
      \<union> {(q @ c # p, x) | c n p x. (c, n) \<in> set es \<and> p \<noteq> [] \<and> lookup p (Some n) = Some (File x)}"
  proof (intro set_eqI iffI)
    fix e
    assume "e \<in> {(q @ c # p, x) | c p x. \<exists>n. (c, n) \<in> set es \<and> lookup p (Some n) = Some (File x)}"
    then obtain c p x n where e: "e = (q @ c # p, x)" and n: "(c, n) \<in> set es"
      and l: "lookup p (Some n) = Some (File x)" by blast
    show "e \<in> {(q @ [c], x) | c x. (c, File x) \<in> set es}
      \<union> {(q @ c # p, x) | c n p x. (c, n) \<in> set es \<and> p \<noteq> [] \<and> lookup p (Some n) = Some (File x)}"
    proof (cases "p = []")
      case True
      with l have "n = File x" by simp
      with e n True show ?thesis by auto
    next
      case False
      with e n l show ?thesis by blast
    qed
  next
    fix e
    assume "e \<in> {(q @ [c], x) | c x. (c, File x) \<in> set es}
      \<union> {(q @ c # p, x) | c n p x. (c, n) \<in> set es \<and> p \<noteq> [] \<and> lookup p (Some n) = Some (File x)}"
    then show "e \<in> {(q @ c # p, x) | c p x. \<exists>n. (c, n) \<in> set es \<and> lookup p (Some n) = Some (File x)}"
    proof
      assume "e \<in> {(q @ [c], x) | c x. (c, File x) \<in> set es}"
      then obtain c x where "e = (q @ c # [], x)" "(c, File x) \<in> set es" "lookup [] (Some (File x)) = Some (File x)"
        by auto
      then show ?thesis by blast
    next
      assume "e \<in> {(q @ c # p, x) | c n p x. (c, n) \<in> set es \<and> p \<noteq> [] \<and> lookup p (Some n) = Some (File x)}"
      then show ?thesis by blast
    qed
  qed
  finally show ?case
    using 2(1) [OF w] by (simp add: set_file_entries)
next
  case (3 q)
  show ?case by simp
next
  case (4 q c n es)
  then have wn: "wf_node n" and we: "wf_entries es" by simp_all
  have "set (walk_files (q @ [c]) n) = {(q @ c # p, x) | p x. p \<noteq> [] \<and> lookup p (Some n) = Some (File x)}"
    using 4(1) [OF wn] by simp
  with 4(2) [OF we] show ?case
    by auto
qed

lemma set_tree_paths:
  "wf_node t \<Longrightarrow> set (tree_paths q t) = {q @ p | p. lookup p (Some t) \<noteq> None}"
  "wf_entries es \<Longrightarrow>
     set (entries_paths q es) = {q @ c # p | c n p. (c, n) \<in> set es \<and> lookup p (Some n) \<noteq> None}"
proof (induction q t and q es rule: tree_paths_entries_paths.induct)
  case (1 q x)
  show ?case by auto
next
  case (2 q es)
  then have d: "distinct (map fst es)" and w: "wf_entries es" by simp_all
  have "{q @ p | p. lookup p (Some (Dir es)) \<noteq> None}
      = insert q {q @ c # p | c p. \<exists>m. lookup (c # p) (Some (Dir es)) = Some m}"
  proof (intro set_eqI iffI)
    fix e
    assume "e \<in> {q @ p | p. lookup p (Some (Dir es)) \<noteq> None}"
    then obtain p where e: "e = q @ p" and l: "lookup p (Some (Dir es)) \<noteq> None" by blast
    show "e \<in> insert q {q @ c # p | c p. \<exists>m. lookup (c # p) (Some (Dir es)) = Some m}"
    proof (cases p)
      case Nil
      with e show ?thesis by simp
    next
      case (Cons c p')
      with e l show ?thesis by blast
    qed
  next
    fix e
    assume "e \<in> insert q {q @ c # p | c p. \<exists>m. lookup (c # p) (Some (Dir es)) = Some m}"
    then have "e = q @ [] \<and> lookup [] (Some (Dir es)) \<noteq> None
             \<or> (\<exists>c p. e = q @ c # p \<and> lookup (c # p) (Some (Dir es)) \<noteq> None)"
      by auto
    then show "e \<in> {q @ p | p. lookup p (Some (Dir es)) \<noteq> None}" by blast
  qed
  also have "\<dots> = insert q {q @ c # p | c p. \<exists>m n. (c, n) \<in> set es \<and> lookup p (Some n) = Some m}"
    unfolding lookup_Dir_Cons [OF d] by blast
  also have "\<dots> = insert q {q @ c # p | c n p. (c, n) \<in> set es \<and> lookup p (Some n) \<noteq> None}"
    by auto
  finally show ?case
    using 2(1) [OF w] by simp
next
  case (3 q)
  show ?case by simp
next
  case (4 q c n es)
  then have wn: "wf_node n" and we: "wf_entries es" by simp_all
  have "set (tree_paths (q @ [c]) n) = {q @ c # p | p. lookup p (Some n) \<noteq> None}"
    using 4(1) [OF wn] by simp
  with 4(2) [OF we] show ?case
    by auto
qed

lemma put_file_Inr: "put_file x n = Inr m \<Longrightarrow> m = Some (File x)"
  by (cases "(x, n)" rule: put_file.cases) auto

lemma write_file_at:
  assumes "write_file p x fs = (Inr u, fs')"
  shows "node_at fs' p = Some (File x)"
proof -
  from assms have "Inr (node_at fs' p) = alter [] (put_file x) (node_at fs p)"
    unfolding write_file_def using change_under [of p "[]"] by simp
  then show ?thesis
    using put_file_Inr [of x "node_at fs p" "node_at fs' p"] by simp
qed

lemma write_file_frame:
  "write_file (p @ [a]) x fs = (Inr u, fs') \<Longrightarrow> a \<noteq> b \<Longrightarrow> node_at fs' (p @ [b]) = node_at fs (p @ [b])"
  unfolding write_file_def by (rule change_frame)

lemma alter_put_file_Some: "alter p (put_file x) n = Inr m \<Longrightarrow> m \<noteq> None"
proof (cases p)
  case Nil
  assume "alter p (put_file x) n = Inr m"
  with Nil show ?thesis using put_file_Inr [of x n m] by simp
next
  case (Cons c p')
  assume a: "alter p (put_file x) n = Inr m"
  show ?thesis
  proof (cases n)
    case None
    with a Cons show ?thesis by simp
  next
    case (Some t)
    with a Cons show ?thesis
      by (cases t) (auto split: sum.splits option.splits)
  qed
qed

lemma alter_put_file_kind:
  "alter p (put_file x) n = Inr n' \<Longrightarrow>
     kind (lookup q n') = (if q = p then Some (FileEntry x) else kind (lookup q n))"
proof (induction p arbitrary: n n' q)
  case Nil
  from put_file_Inr [of x n n'] Nil have n': "n' = Some (File x)" by simp
  have "n = None \<or> (\<exists>y. n = Some (File y))"
    using Nil by (cases "(x, n)" rule: put_file.cases) auto
  with n' show ?case by (cases q) auto
next
  case (Cons c p)
  show ?case
  proof (cases n)
    case None
    with Cons.prems show ?thesis by simp
  next
    case (Some t)
    show ?thesis
    proof (cases t)
      case (File y)
      with Some Cons.prems show ?thesis by simp
    next
      case (Dir es)
      with Some Cons.prems obtain m where
        m: "alter p (put_file x) (map_of es c) = Inr m"
        by (auto split: sum.splits)
      from alter_put_file_Some [OF m] obtain t' where t': "m = Some t'" by auto
      with Some Dir m Cons.prems have n': "n' = Some (Dir (AList.update c t' es))"
        by simp
      show ?thesis
      proof (cases q)
        case Nil
        with n' Some Dir show ?thesis by simp
      next
        case (Cons c' q')
        show ?thesis
        proof (cases "c' = c")
          case True
          with Cons n' Some Dir Cons.IH [OF m, of q'] t' show ?thesis
            by (simp add: update_conv')
        next
          case False
          with Cons n' Some Dir show ?thesis
            by (simp add: update_conv')
        qed
      qed
    qed
  qed
qed

lemma alter_put_file_ok:
  "p \<noteq> [] \<Longrightarrow> is_Dir_opt (lookup (butlast p) n) \<Longrightarrow> \<not> is_Dir_opt (lookup p n) \<Longrightarrow>
     \<exists>t. alter p (put_file x) n = Inr (Some t)"
proof (induction p arbitrary: n)
  case Nil
  then show ?case by simp
next
  case (Cons c p)
  from Cons.prems(2) obtain es where n: "n = Some (Dir es)"
    by (cases n; cases "the n"; cases p) auto
  show ?case
  proof (cases "p = []")
    case True
    with n Cons.prems(3) show ?thesis
      by (cases "(x, map_of es c)" rule: put_file.cases) auto
  next
    case False
    with n Cons.prems have "is_Dir_opt (lookup (butlast p) (map_of es c))"
      and "\<not> is_Dir_opt (lookup p (map_of es c))" by simp_all
    from Cons.IH [OF False this] obtain t where "alter p (put_file x) (map_of es c) = Inr (Some t)"
      by blast
    with n show ?thesis by simp
  qed
qed

lemma write_file_ok:
  assumes "p \<noteq> []" and "is_dir fs (butlast p)" and "\<not> is_dir fs p"
  shows "\<exists>fs'. write_file p x fs = (Inr (), fs')
           \<and> (\<forall>q. entry_at fs' q = (if q = p then Some (FileEntry x) else entry_at fs q))"
proof -
  have d: "is_dir fs q = is_Dir_opt (lookup q (Some fs))" for q
    using is_dir_append [of fs "[]" q] by (simp add: node_at_def)
  from alter_put_file_ok [OF assms(1), of "Some fs" x] assms(2,3) obtain fs' where
    a: "alter p (put_file x) (Some fs) = Inr (Some fs')"
    unfolding d by blast
  then have "write_file p x fs = (Inr (), fs')"
    by (simp add: write_file_def change_def)
  with alter_put_file_kind [OF a] show ?thesis
    by (auto simp: entry_at_def node_at_def)
qed

section \<open>Lemmas on the package assembler\<close>

lemma make_github_folder_steps:
  assumes "make_github_folder base img1 img2 docx fs = (Inr (rd, zp), fs')"
  shows "rd = base @ [''github_repo''] \<and> zp = base @ [''github_repo.zip'']
       \<and> (\<exists>x1 x2 xd fs9 u.
             node_at fs9 rd = Some (package_tree (name img1) x1 (name img2) x2 (name docx) xd)
           \<and> zip_tree zp rd fs9 = (Inr u, fs'))"
proof -
  let ?rd = "base @ [''github_repo'']"
  let ?zp = "base @ [''github_repo.zip'']"
  from assms obtain fs1 fs2 fs3 fs4 fs5 fs6 fs7 fs8 fs9 u1 u2 u3 u4 u5 u6 u7 u8 u9 u10 where
        s2: "mkdir_parents False ?rd fs1 = (Inr u2, fs2)"
    and s3: "mkdir (?rd @ [''images'']) fs2 = (Inr u3, fs3)"
    and s4: "copy img1 (?rd @ [''images'', name img1]) fs3 = (Inr u4, fs4)"
    and s5: "copy img2 (?rd @ [''images'', name img2]) fs4 = (Inr u5, fs5)"
    and s6: "write_file (?rd @ [''README.md'']) (Text readme_text) fs5 = (Inr u6, fs6)"
    and s7: "write_file (?rd @ [''QUESTIONS.md'']) (Text questions_md_text) fs6 = (Inr u7, fs7)"
    and s8: "copy docx (?rd @ [name docx]) fs7 = (Inr u8, fs8)"
    and s9: "(if path_exists fs8 ?zp then unlink ?zp fs8 else (Inr (), fs8)) = (Inr u9, fs9)"
    and s10: "zip_tree ?zp ?rd fs9 = (Inr u10, fs')"
    and rd: "rd = ?rd" and zp: "zp = ?zp"
    unfolding make_github_folder_def Let_def bind_Inr by auto
  have t2: "node_at fs2 ?rd = Some (Dir [])"
    using s2 by (auto simp: mkdir_parents_def node_at_def split: sum.splits dest: make_dirs_fresh)
  have t3: "node_at fs3 ?rd = Some (Dir [(''images'', Dir [])])"
    using change_under [OF s3 [unfolded mkdir_def]] t2 by simp
  from copy_under [OF s4] t3 obtain x1 where
    t4: "node_at fs4 ?rd = Some (Dir [(''images'', Dir [(name img1, File x1)])])"
    by auto
  from copy_under [OF s5] t4 obtain x2 where
    t5: "node_at fs5 ?rd = Some (Dir [(''images'', Dir (AList.update (name img2) (File x2) [(name img1, File x1)]))])"
    by (auto split: if_splits)
  have t6: "node_at fs6 ?rd = Some (Dir [(''images'', Dir (AList.update (name img2) (File x2) [(name img1, File x1)])),
       (''README.md'', File (Text readme_text))])"
    using change_under [OF s6 [unfolded write_file_def]] t5 by simp
  have t7: "node_at fs7 ?rd = Some (Dir [(''images'', Dir (AList.update (name img2) (File x2) [(name img1, File x1)])),
       (''README.md'', File (Text readme_text)), (''QUESTIONS.md'', File (Text questions_md_text))])"
    using change_under [OF s7 [unfolded write_file_def]] t6 by simp
  from copy_under [OF s8] t7 obtain xd where
    t8: "node_at fs8 ?rd = Some (package_tree (name img1) x1 (name img2) x2 (name docx) xd)"
    by (auto simp: package_tree_def Let_def split: if_splits)
  have t9: "node_at fs9 ?rd = node_at fs8 ?rd"
    using s9 change_frame [of base "''github_repo.zip''" "[]" remove_file fs8 u9 fs9 "''github_repo''" "[]"]
    by (auto simp: unlink_def split: if_splits)
  from t8 t9 s10 rd zp show ?thesis by auto
qed

lemma zip_tree_result:
  assumes z: "zip_tree (base @ [a]) (base @ [b]) fs = (Inr u, fs')"
    and ab: "a \<noteq> b"
    and t: "node_at fs (base @ [b]) = Some t"
    and w: "wf_node t"
  shows "node_at fs' (base @ [b]) = Some t
       \<and> node_at fs' (base @ [a]) = Some (File (Zip (named (walk_files [] t))))"
proof -
  from z obtain u1 fs1 where
    s1: "write_file (base @ [a]) (Zip []) fs = (Inr u1, fs1)"
    and rest: "(case add_walk fs1 (base @ [b])
               (case node_at fs1 (base @ [b]) of None \<Rightarrow> [] | Some n \<Rightarrow> os_walk (base @ [b]) n) [] of
          (res, zf) \<Rightarrow> bind (write_file (base @ [a]) (Zip zf) fs1) (\<lambda>u fs. (res, fs))) = (Inr u, fs')"
    unfolding zip_tree_def bind_Inr by auto
  have t1: "node_at fs1 (base @ [b]) = Some t"
    using write_file_frame [OF s1 ab] t by simp
  have walk: "add_walk fs1 (base @ [b]) (os_walk (base @ [b]) t) [] = (Inr (), named (walk_files [] t))"
    using add_walk_os_walk(1) [OF w _ t1, of "base @ [b]" "[]"] by simp
  from rest t1 walk obtain u2 where
    s2: "write_file (base @ [a]) (Zip (named (walk_files [] t))) fs1 = (Inr u2, fs')"
    by (auto simp: bind_Inr)
  from write_file_at [OF s2] write_file_frame [OF s2 ab] t1 show ?thesis
    by simp
qed

lemma wf_package_tree: "wf_node (package_tree n1 x1 n2 x2 nd xd)"
  by (auto simp: package_tree_def Let_def)

lemma make_github_folder_result:
  assumes "make_github_folder base img1 img2 docx fs = (Inr (rd, zp), fs')"
  shows "rd = base @ [''github_repo''] \<and> zp = base @ [''github_repo.zip'']
       \<and> (\<exists>x1 x2 xd.
             node_at fs' rd = Some (package_tree (name img1) x1 (name img2) x2 (name docx) xd)
           \<and> node_at fs' zp = Some (File (Zip (named (walk_files []
                 (package_tree (name img1) x1 (name img2) x2 (name docx) xd))))))"
proof -
  from make_github_folder_steps [OF assms] obtain x1 x2 xd fs9 u where
    rd: "rd = base @ [''github_repo'']" and zp: "zp = base @ [''github_repo.zip'']"
    and t: "node_at fs9 (base @ [''github_repo'']) = Some (package_tree (name img1) x1 (name img2) x2 (name docx) xd)"
    and z: "zip_tree (base @ [''github_repo.zip'']) (base @ [''github_repo'']) fs9 = (Inr u, fs')"
    by auto
  from zip_tree_result [OF z _ t wf_package_tree] rd zp show ?thesis
    by auto
qed

lemma name_snoc [simp]: "name (p @ [c]) = c"
  by (induction p rule: name.induct) auto

lemma path_exists_append: "path_exists fs (p @ q) \<longleftrightarrow> lookup q (node_at fs p) \<noteq> None"
  by (simp add: path_exists_def node_at_append split: option.splits)

lemma paths_of_tree:
  assumes "node_at fs rd = Some t" and "wf_node t"
  shows "{p. path_exists fs (rd @ p)} = set (tree_paths [] t)"
  using assms by (simp add: path_exists_append set_tree_paths(1))

lemma files_of_tree:
  assumes "node_at fs rd = Some (Dir es)" and "wf_node (Dir es)"
  shows "{(p, x). node_at fs (rd @ p) = Some (File x)} = set (walk_files [] (Dir es))"
proof -
  have "lookup p (Some (Dir es)) = Some (File x) \<Longrightarrow> p \<noteq> []" for p x
    by auto
  then have "{(p, x). node_at fs (rd @ p) = Some (File x)}
      = {([] @ p, x) | p x. p \<noteq> [] \<and> lookup p (Some (Dir es)) = Some (File x)}"
    using assms(1) by (auto simp: node_at_append)
  with set_walk_files(1) [OF assms(2), of "[]"] show ?thesis by simp
qed

lemma package_tree_Dir: "\<exists>es. package_tree n1 x1 n2 x2 nd xd = Dir es"
  by (simp add: package_tree_def Let_def)

lemma set_named: "set (named fs) = {(path_str p, x) | p x. (p, x) \<in> set fs}"
  by (auto simp: named_def image_iff) force

lemma starts_with_subset: "starts_with p s \<Longrightarrow> set p \<subseteq> set s"
  unfolding starts_with_def by (metis set_take_subset)

lemma generate_artifacts_result:
  assumes "generate_artifacts lib base fs = (Inr (rd, zp), fs')"
  shows "rd = base @ [''github_repo''] \<and> zp = base @ [''github_repo.zip'']
    \<and> (\<exists>x1 x2 xd.
          node_at fs' rd = Some (package_tree ''uniform_table.png'' x1
              ''rect_package_topview_8.png'' x2 ''generated_assessment.docx'' xd)
        \<and> node_at fs' zp = Some (File (Zip
             [(''README.md'', Text readme_text),
              (''QUESTIONS.md'', Text questions_md_text),
              (''generated_assessment.docx'', xd),
              (''images/uniform_table.png'', x1),
              (''images/rect_package_topview_8.png'', x2)])))"
proof -
  from assms obtain fs4 where
    "make_github_folder base (base @ [''uniform_table.png''])
       (base @ [''rect_package_topview_8.png'']) (base @ [''generated_assessment.docx'']) fs4
     = (Inr (rd, zp), fs')"
    unfolding generate_artifacts_def Let_def bind_Inr by auto
  from make_github_folder_result [OF this] obtain x1 x2 xd where
    r: "rd = base @ [''github_repo'']" "zp = base @ [''github_repo.zip'']"
      "node_at fs' rd = Some (package_tree ''uniform_table.png'' x1
              ''rect_package_topview_8.png'' x2 ''generated_assessment.docx'' xd)"
      "node_at fs' zp = Some (File (Zip (named (walk_files [] (package_tree ''uniform_table.png'' x1
              ''rect_package_topview_8.png'' x2 ''generated_assessment.docx'' xd)))))"
    by auto
  have "named (walk_files [] (package_tree ''uniform_table.png'' x1
              ''rect_package_topview_8.png'' x2 ''generated_assessment.docx'' xd)) =
             [(''README.md'', Text readme_text),
              (''QUESTIONS.md'', Text questions_md_text),
              (''generated_assessment.docx'', xd),
              (''images/uniform_table.png'', x1),
              (''images/rect_package_topview_8.png'', x2)]"
    by (simp add: package_tree_def Let_def)
  with r show ?thesis by auto
qed

lemmas fs_eval = make_github_folder_def Let_def bind_def path_exists_def node_at_def rmtree_def
  change_def mkdir_parents_def mkdir_def copy_def is_dir_def read_file_def write_file_def
  unlink_def zip_tree_def zf_write_def relative_to_def

lemma example_run:
  "make_github_folder [''out''] [''out'', ''table.png''] [''out'', ''balls.png''] [''out'', ''doc.docx'']
     example_fs = (Inr ([''out'', ''github_repo''], [''out'', ''github_repo.zip'']), example_fs')"
  unfolding example_fs_def example_fs'_def
  by (simp add: fs_eval)

section \<open>When the composer and the assembler return\<close>

lemma alter_below:
  "lookup p n = Some t \<Longrightarrow> alter q f (Some t) = Inr (Some t') \<Longrightarrow> \<exists>n'. alter (p @ q) f n = Inr (Some n')"
proof (induction p arbitrary: n)
  case Nil
  then show ?case by simp
next
  case (Cons c p)
  from Cons.prems(1) obtain es where n: "n = Some (Dir es)"
    by (cases n; cases "the n") auto
  with Cons.prems(1) have "lookup p (map_of es c) = Some t" by simp
  from Cons.IH [OF this Cons.prems(2)] obtain m where "alter (p @ q) f (map_of es c) = Inr (Some m)"
    by blast
  with n show ?case by simp
qed

lemma is_dir_iff: "is_dir fs p \<longleftrightarrow> (\<exists>es. node_at fs p = Some (Dir es))"
  by (auto simp: is_dir_def split: option.splits node.splits)

text \<open>
  A change below the entry \<open>a\<close> of a directory succeeds when it succeeds on that entry
  alone; it leaves the directory a directory and the other entries as they were.
\<close>

lemma change_child:
  assumes dir: "is_dir fs base"
    and res: "alter q f (node_at fs (base @ [a])) = Inr r"
  shows "\<exists>fs'. change (base @ a # q) f fs = (Inr (), fs')
           \<and> node_at fs' (base @ [a]) = r
           \<and> is_dir fs' base
           \<and> (\<forall>b q'. b \<noteq> a \<longrightarrow> node_at fs' (base @ b # q') = node_at fs (base @ b # q'))"
proof -
  from dir obtain es where es: "node_at fs base = Some (Dir es)"
    by (auto simp: is_dir_iff)
  then have child: "node_at fs (base @ [a]) = map_of es a"
    by (simp add: node_at_append)
  from res have "\<exists>es'. alter (a # q) f (Some (Dir es)) = Inr (Some (Dir es'))"
    unfolding child by (cases r) simp_all
  then obtain es' where step: "alter (a # q) f (Some (Dir es)) = Inr (Some (Dir es'))" ..
  from es have "lookup base (Some fs) = Some (Dir es)"
    by (simp add: node_at_def)
  from alter_below [OF this step] obtain fs' where
    a: "alter (base @ a # q) f (Some fs) = Inr (Some fs')" ..
  then have c: "change (base @ a # q) f fs = (Inr (), fs')"
    by (simp add: change_def)
  then have c': "change ((base @ [a]) @ q) f fs = (Inr (), fs')"
    by simp
  have "(Inr (node_at fs' (base @ [a])) :: error + node option) = Inr r"
    by (rule trans [OF change_under [OF c'] res])
  then have r: "node_at fs' (base @ [a]) = r" by (simp only: sum.inject)
  have "(Inr (node_at fs' base) :: error + node option) = Inr (Some (Dir es'))"
    by (rule trans [OF change_under [OF c, unfolded es] step])
  then have d: "is_dir fs' base" by (simp add: is_dir_iff)
  have k: "\<forall>b q'. b \<noteq> a \<longrightarrow> node_at fs' (base @ b # q') = node_at fs (base @ b # q')"
  proof (intro allI impI)
    fix b q'
    assume "b \<noteq> a"
    then have "a \<noteq> b" by (rule not_sym)
    from change_frame [OF c this] show "node_at fs' (base @ b # q') = node_at fs (base @ b # q')" .
  qed
  show ?thesis
    by (rule exI [of _ fs']) (intro conjI c r d k)
qed

lemma make_dirs_child:
  "lookup p n = Some (Dir es) \<Longrightarrow> map_of es a = None \<Longrightarrow>
     \<exists>n'. make_dirs ok (p @ [a]) n = Inr n'
        \<and> lookup (p @ [a]) (Some n') = Some (Dir [])
        \<and> is_Dir_opt (lookup p (Some n'))
        \<and> (\<forall>b q. b \<noteq> a \<longrightarrow> lookup (p @ b # q) (Some n') = lookup (p @ b # q) n)"
proof (induction p arbitrary: n)
  case Nil
  then show ?case by (simp add: update_conv')
next
  case (Cons c p)
  from Cons.prems(1) obtain es0 where n: "n = Some (Dir es0)"
    by (cases n; cases "the n") auto
  with Cons.prems(1) have "lookup p (map_of es0 c) = Some (Dir es)" by simp
  from Cons.IH [OF this Cons.prems(2)] obtain m where
    m: "make_dirs ok (p @ [a]) (map_of es0 c) = Inr m"
    and f: "lookup (p @ [a]) (Some m) = Some (Dir [])"
    and d: "is_Dir_opt (lookup p (Some m))"
    and k: "\<And>b q. b \<noteq> a \<Longrightarrow> lookup (p @ b # q) (Some m) = lookup (p @ b # q) (map_of es0 c)"
    by blast
  from n m have "make_dirs ok ((c # p) @ [a]) n = Inr (Dir (AList.update c m es0))"
    by simp
  with f d k n show ?case
    by (simp add: update_conv')
qed

lemma mkdir_parents_child:
  assumes dir: "is_dir fs base" and absent: "node_at fs (base @ [a]) = None"
  shows "\<exists>fs'. mkdir_parents False (base @ [a]) fs = (Inr (), fs')
           \<and> node_at fs' (base @ [a]) = Some (Dir [])
           \<and> is_dir fs' base
           \<and> (\<forall>b q'. b \<noteq> a \<longrightarrow> node_at fs' (base @ b # q') = node_at fs (base @ b # q'))"
proof -
  from dir obtain es where es: "lookup base (Some fs) = Some (Dir es)"
    by (auto simp: is_dir_iff node_at_def)
  with absent have "map_of es a = None"
    by (simp add: node_at_def lookup_append)
  from make_dirs_child [OF es this, of False] obtain fs' where
    "make_dirs False (base @ [a]) (Some fs) = Inr fs'"
    "lookup (base @ [a]) (Some fs') = Some (Dir [])"
    "is_Dir_opt (lookup base (Some fs'))"
    "\<And>b q. b \<noteq> a \<Longrightarrow> lookup (base @ b # q) (Some fs') = lookup (base @ b # q) (Some fs)"
    by blast
  then show ?thesis
    using is_dir_append [of fs' "[]" base]
    by (auto simp: mkdir_parents_def node_at_def)
qed

lemma make_dirs_existing:
  "lookup p n = Some (Dir es) \<Longrightarrow> \<exists>t. n = Some t \<and> make_dirs True p n = Inr t"
proof (induction p arbitrary: n)
  case Nil
  then show ?case by simp
next
  case (Cons c p)
  from Cons.prems(1) obtain es0 where n: "n = Some (Dir es0)"
    by (cases n; cases "the n") auto
  with Cons.prems(1) have "lookup p (map_of es0 c) = Some (Dir es)" by simp
  from Cons.IH [OF this] obtain t where "map_of es0 c = Some t" "make_dirs True p (map_of es0 c) = Inr t"
    by blast
  with n show ?case
    by (simp add: update_triv)
qed

lemma mkdir_parents_existing:
  "is_dir fs base \<Longrightarrow> mkdir_parents True base fs = (Inr (), fs)"
  using make_dirs_existing [of base "Some fs"]
  by (auto simp: is_dir_iff node_at_def mkdir_parents_def)

lemma copy_child:
  assumes dir: "is_dir fs base"
    and src: "node_at fs src = Some (File x)"
    and dst: "q' = (if is_dir fs (base @ a # q) then q @ [name src] else q)"
    and ne: "src \<noteq> base @ a # q'"
    and res: "alter q' (put_file x) (node_at fs (base @ [a])) = Inr r"
  shows "\<exists>fs'. copy src (base @ a # q) fs = (Inr (), fs')
           \<and> node_at fs' (base @ [a]) = r
           \<and> is_dir fs' base
           \<and> (\<forall>b q'. b \<noteq> a \<longrightarrow> node_at fs' (base @ b # q') = node_at fs (base @ b # q'))"
proof -
  have "copy src (base @ a # q) fs = write_file (base @ a # q') x fs"
    using src dst ne by (auto simp: copy_def Let_def bind_def read_file_def)
  with change_child [OF dir res] show ?thesis
    by (simp add: write_file_def)
qed

lemma is_dir_child: "is_dir fs (base @ a # q) = is_Dir_opt (lookup q (node_at fs (base @ [a])))"
  using is_dir_append [of fs "base @ [a]" q] by simp

lemma put_file_ok: "\<not> is_Dir_opt n \<Longrightarrow> put_file x n = Inr (Some (File x))"
  by (cases "(x, n)" rule: put_file.cases) auto

lemma write_file_child:
  assumes "is_dir fs base" and "\<not> is_dir fs (base @ [a])"
  shows "\<exists>fs'. write_file (base @ [a]) x fs = (Inr (), fs')
           \<and> node_at fs' (base @ [a]) = Some (File x)
           \<and> is_dir fs' base
           \<and> (\<forall>b q'. b \<noteq> a \<longrightarrow> node_at fs' (base @ b # q') = node_at fs (base @ b # q'))"
proof -
  from assms(2) have "\<not> is_Dir_opt (node_at fs (base @ [a]))"
    using is_dir_child [of fs base a "[]"] by simp
  then have "alter [] (put_file x) (node_at fs (base @ [a])) = Inr (Some (File x))"
    by (simp add: put_file_ok)
  from change_child [OF assms(1) this] show ?thesis
    by (simp add: write_file_def)
qed

lemma zip_tree_returns:
  assumes dir: "is_dir fs base"
    and t: "node_at fs (base @ [b]) = Some t"
    and w: "wf_node t"
    and z: "\<not> is_dir fs (base @ [a])"
    and ab: "a \<noteq> b"
  shows "\<exists>fs'. zip_tree (base @ [a]) (base @ [b]) fs = (Inr (), fs')
           \<and> is_dir fs' base
           \<and> (\<forall>c q'. c \<noteq> a \<longrightarrow> node_at fs' (base @ c # q') = node_at fs (base @ c # q'))"
proof -
  from write_file_child [OF dir z, of "Zip []"] obtain fs1 where
    s1: "write_file (base @ [a]) (Zip []) fs = (Inr (), fs1)"
    and a1: "node_at fs1 (base @ [a]) = Some (File (Zip []))"
    and d1: "is_dir fs1 base"
    and k1: "\<forall>b q'. b \<noteq> a \<longrightarrow> node_at fs1 (base @ b # q') = node_at fs (base @ b # q')"
    by blast
  from k1 ab t have t1: "node_at fs1 (base @ [b]) = Some t"
    by simp
  have s2: "add_walk fs1 (base @ [b]) (os_walk (base @ [b]) t) [] = (Inr (), [] @ named (walk_files (drop (length (base @ [b])) (base @ [b])) t))"
    by (rule add_walk_os_walk(1) [OF w _ t1]) simp
  from a1 have "\<not> is_dir fs1 (base @ [a])"
    by (simp add: is_dir_def)
  from write_file_child [OF d1 this, of "Zip (named (walk_files [] t))"] obtain fs2 where
    s3: "write_file (base @ [a]) (Zip (named (walk_files [] t))) fs1 = (Inr (), fs2)"
    and d2: "is_dir fs2 base"
    and k2: "\<forall>b q'. b \<noteq> a \<longrightarrow> node_at fs2 (base @ b # q') = node_at fs1 (base @ b # q')"
    by blast
  from s2 have s2': "add_walk fs1 (base @ [b]) (os_walk (base @ [b]) t) [] = (Inr (), named (walk_files [] t))"
    by simp
  have "zip_tree (base @ [a]) (base @ [b]) fs = (Inr (), fs2)"
    by (simp add: zip_tree_def bind_def s1 t1 s2' s3)
  with d2 k1 k2 show ?thesis
    by simp
qed

text \<open>
  The package assembler returns whenever the output directory is a directory that holds
  the three files, the package directory is free or a directory, and the archive is no
  directory.  It changes nothing in the output directory but the package directory and
  the archive.
\<close>

lemma make_github_folder_returns:
  assumes dir: "is_dir fs base"
    and rd: "path_exists fs (base @ [''github_repo'']) \<longrightarrow> is_dir fs (base @ [''github_repo''])"
    and zp: "\<not> is_dir fs (base @ [''github_repo.zip''])"
    and f1: "node_at fs (base @ [n1]) = Some (File x1)"
    and f2: "node_at fs (base @ [n2]) = Some (File x2)"
    and fd: "node_at fs (base @ [nd]) = Some (File xd)"
  shows "\<exists>fs'. make_github_folder base (base @ [n1]) (base @ [n2]) (base @ [nd]) fs
            = (Inr (base @ [''github_repo''], base @ [''github_repo.zip'']), fs')
          \<and> is_dir fs' base
          \<and> (\<forall>b q. b \<noteq> ''github_repo'' \<and> b \<noteq> ''github_repo.zip'' \<longrightarrow>
                node_at fs' (base @ b # q) = node_at fs (base @ b # q))"
proof -
  let ?gr = "''github_repo''"
  let ?zip = "''github_repo.zip''"
  let ?kept = "\<lambda>fs'. \<forall>b q'. b \<noteq> ?gr \<longrightarrow> node_at fs' (base @ b # q') = node_at fs (base @ b # q')"
  from rd f1 f2 fd have ne: "n1 \<noteq> ?gr" "n2 \<noteq> ?gr" "nd \<noteq> ?gr"
    by (auto simp: path_exists_def is_dir_def)
  have "\<exists>fs1. (if path_exists fs (base @ [?gr]) then rmtree (base @ [?gr]) fs else (Inr (), fs)) = (Inr (), fs1)
          \<and> node_at fs1 (base @ [?gr]) = None \<and> is_dir fs1 base \<and> ?kept fs1"
  proof (cases "path_exists fs (base @ [?gr])")
    case True
    with rd obtain es where "node_at fs (base @ [?gr]) = Some (Dir es)"
      by (auto simp: is_dir_iff)
    then have "alter [] remove_dir (node_at fs (base @ [?gr])) = Inr None"
      by simp
    from change_child [OF dir this] True show ?thesis
      by (simp add: rmtree_def)
  next
    case False
    with dir show ?thesis
      by (simp add: path_exists_def split: option.splits)
  qed
  then obtain fs1 where
    s1: "(if path_exists fs (base @ [?gr]) then rmtree (base @ [?gr]) fs else (Inr (), fs)) = (Inr (), fs1)"
    and t1: "node_at fs1 (base @ [?gr]) = None" and d1: "is_dir fs1 base" and k1: "?kept fs1"
    by blast
  from mkdir_parents_child [OF d1 t1] obtain fs2 where
    s2: "mkdir_parents False (base @ [?gr]) fs1 = (Inr (), fs2)"
    and t2: "node_at fs2 (base @ [?gr]) = Some (Dir [])" and d2: "is_dir fs2 base"
    and "\<forall>b q'. b \<noteq> ?gr \<longrightarrow> node_at fs2 (base @ b # q') = node_at fs1 (base @ b # q')"
    by blast
  with k1 have k2: "?kept fs2" by simp
  have "alter [''images''] new_dir (node_at fs2 (base @ [?gr])) = Inr (Some (Dir [(''images'', Dir [])]))"
    by (simp add: t2)
  from change_child [OF d2 this] obtain fs3 where
    s3: "mkdir (base @ [?gr, ''images'']) fs2 = (Inr (), fs3)"
    and t3: "node_at fs3 (base @ [?gr]) = Some (Dir [(''images'', Dir [])])" and d3: "is_dir fs3 base"
    and "\<forall>b q'. b \<noteq> ?gr \<longrightarrow> node_at fs3 (base @ b # q') = node_at fs2 (base @ b # q')"
    unfolding mkdir_def by blast
  with k2 have k3: "?kept fs3" by simp
  from k3 ne f1 have src1: "node_at fs3 (base @ [n1]) = Some (File x1)" by simp
  have "\<exists>fs4. copy (base @ [n1]) (base @ [?gr, ''images'', n1]) fs3 = (Inr (), fs4)
      \<and> node_at fs4 (base @ [?gr]) = Some (Dir [(''images'', Dir [(n1, File x1)])])
      \<and> is_dir fs4 base
      \<and> (\<forall>b q'. b \<noteq> ?gr \<longrightarrow> node_at fs4 (base @ b # q') = node_at fs3 (base @ b # q'))"
    by (rule copy_child [OF d3 src1, of "[''images'', n1]" ?gr "[''images'', n1]"])
       (simp_all add: is_dir_child t3)
  then obtain fs4 where
    s4: "copy (base @ [n1]) (base @ [?gr, ''images'', n1]) fs3 = (Inr (), fs4)"
    and t4: "node_at fs4 (base @ [?gr]) = Some (Dir [(''images'', Dir [(n1, File x1)])])"
    and d4: "is_dir fs4 base"
    and "\<forall>b q'. b \<noteq> ?gr \<longrightarrow> node_at fs4 (base @ b # q') = node_at fs3 (base @ b # q')"
    by blast
  with k3 have k4: "?kept fs4" by simp
  from k4 ne f2 have src2: "node_at fs4 (base @ [n2]) = Some (File x2)" by simp
  let ?im = "AList.update n2 (File x2) [(n1, File x1)]"
  have "\<exists>fs5. copy (base @ [n2]) (base @ [?gr, ''images'', n2]) fs4 = (Inr (), fs5)
      \<and> node_at fs5 (base @ [?gr]) = Some (Dir [(''images'', Dir ?im)])
      \<and> is_dir fs5 base
      \<and> (\<forall>b q'. b \<noteq> ?gr \<longrightarrow> node_at fs5 (base @ b # q') = node_at fs4 (base @ b # q'))"
    by (rule copy_child [OF d4 src2, of "[''images'', n2]" ?gr "[''images'', n2]"])
       (simp_all add: is_dir_child t4)
  then obtain fs5 where
    s5: "copy (base @ [n2]) (base @ [?gr, ''images'', n2]) fs4 = (Inr (), fs5)"
    and t5: "node_at fs5 (base @ [?gr]) = Some (Dir [(''images'', Dir ?im)])"
    and d5: "is_dir fs5 base"
    and "\<forall>b q'. b \<noteq> ?gr \<longrightarrow> node_at fs5 (base @ b # q') = node_at fs4 (base @ b # q')"
    by blast
  with k4 have k5: "?kept fs5" by simp
  have "alter [''README.md''] (put_file (Text readme_text)) (node_at fs5 (base @ [?gr]))
      = Inr (Some (Dir [(''images'', Dir ?im), (''README.md'', File (Text readme_text))]))"
    unfolding t5 by simp
  from change_child [OF d5 this] obtain fs6 where
    s6: "write_file (base @ [?gr, ''README.md'']) (Text readme_text) fs5 = (Inr (), fs6)"
    and t6: "node_at fs6 (base @ [?gr]) = Some (Dir [(''images'', Dir ?im), (''README.md'', File (Text readme_text))])"
    and d6: "is_dir fs6 base"
    and "\<forall>b q'. b \<noteq> ?gr \<longrightarrow> node_at fs6 (base @ b # q') = node_at fs5 (base @ b # q')"
    unfolding write_file_def by blast
  with k5 have k6: "?kept fs6" by simp
  let ?es = "[(''images'', Dir ?im), (''README.md'', File (Text readme_text)),
              (''QUESTIONS.md'', File (Text questions_md_text))]"
  have "alter [''QUESTIONS.md''] (put_file (Text questions_md_text)) (node_at fs6 (base @ [?gr]))
      = Inr (Some (Dir ?es))"
    unfolding t6 by simp
  from change_child [OF d6 this] obtain fs7 where
    s7: "write_file (base @ [?gr, ''QUESTIONS.md'']) (Text questions_md_text) fs6 = (Inr (), fs7)"
    and t7: "node_at fs7 (base @ [?gr]) = Some (Dir ?es)"
    and d7: "is_dir fs7 base"
    and "\<forall>b q'. b \<noteq> ?gr \<longrightarrow> node_at fs7 (base @ b # q') = node_at fs6 (base @ b # q')"
    unfolding write_file_def by blast
  with k6 have k7: "?kept fs7" by simp
  from k7 ne fd have srcd: "node_at fs7 (base @ [nd]) = Some (File xd)" by simp
  let ?t = "package_tree n1 x1 n2 x2 nd xd"
  have "\<exists>fs8. copy (base @ [nd]) (base @ [?gr, nd]) fs7 = (Inr (), fs8)
      \<and> node_at fs8 (base @ [?gr]) = Some ?t
      \<and> is_dir fs8 base
      \<and> (\<forall>b q'. b \<noteq> ?gr \<longrightarrow> node_at fs8 (base @ b # q') = node_at fs7 (base @ b # q'))"
    by (rule copy_child [OF d7 srcd, of "if nd = ''images'' then [nd, nd] else [nd]" ?gr "[nd]"])
       (auto simp: is_dir_child t7 package_tree_def Let_def)
  then obtain fs8 where
    s8: "copy (base @ [nd]) (base @ [?gr, nd]) fs7 = (Inr (), fs8)"
    and t8: "node_at fs8 (base @ [?gr]) = Some ?t"
    and d8: "is_dir fs8 base"
    and "\<forall>b q'. b \<noteq> ?gr \<longrightarrow> node_at fs8 (base @ b # q') = node_at fs7 (base @ b # q')"
    by blast
  with k7 have k8: "?kept fs8" by simp
  have "\<exists>fs9. (if path_exists fs8 (base @ [?zip]) then unlink (base @ [?zip]) fs8 else (Inr (), fs8)) = (Inr (), fs9)
          \<and> node_at fs9 (base @ [?gr]) = Some ?t \<and> is_dir fs9 base
          \<and> \<not> is_dir fs9 (base @ [?zip])
          \<and> (\<forall>b q'. b \<noteq> ?gr \<and> b \<noteq> ?zip \<longrightarrow> node_at fs9 (base @ b # q') = node_at fs (base @ b # q'))"
  proof (cases "path_exists fs8 (base @ [?zip])")
    case True
    from k8 have same: "node_at fs8 (base @ [?zip]) = node_at fs (base @ [?zip])" by simp
    with True zp obtain x where "node_at fs8 (base @ [?zip]) = Some (File x)"
      by (auto simp: path_exists_def is_dir_def split: option.splits node.splits)
    then have "alter [] remove_file (node_at fs8 (base @ [?zip])) = Inr None"
      by simp
    from change_child [OF d8 this] obtain fs9 where
      "unlink (base @ [?zip]) fs8 = (Inr (), fs9)"
      "node_at fs9 (base @ [?zip]) = None" "is_dir fs9 base"
      "\<forall>b q'. b \<noteq> ?zip \<longrightarrow> node_at fs9 (base @ b # q') = node_at fs8 (base @ b # q')"
      unfolding unlink_def by auto
    with True t8 k8 show ?thesis
      by (simp add: is_dir_def)
  next
    case False
    from k8 have "is_dir fs8 (base @ [?zip]) = is_dir fs (base @ [?zip])"
      by (simp add: is_dir_def)
    with False t8 d8 k8 zp show ?thesis
      by simp
  qed
  then obtain fs9 where
    s9: "(if path_exists fs8 (base @ [?zip]) then unlink (base @ [?zip]) fs8 else (Inr (), fs8)) = (Inr (), fs9)"
    and t9: "node_at fs9 (base @ [?gr]) = Some ?t" and d9: "is_dir fs9 base"
    and z9: "\<not> is_dir fs9 (base @ [?zip])"
    and k9: "\<forall>b q'. b \<noteq> ?gr \<and> b \<noteq> ?zip \<longrightarrow> node_at fs9 (base @ b # q') = node_at fs (base @ b # q')"
    by blast
  have "?zip \<noteq> ?gr" by simp
  from zip_tree_returns [OF d9 t9 wf_package_tree z9 this] obtain fs' where
    s10: "zip_tree (base @ [?zip]) (base @ [?gr]) fs9 = (Inr (), fs')"
    and d10: "is_dir fs' base"
    and "\<forall>c q'. c \<noteq> ?zip \<longrightarrow> node_at fs' (base @ c # q') = node_at fs9 (base @ c # q')"
    by blast
  with k9 have k10: "\<forall>b q. b \<noteq> ?gr \<and> b \<noteq> ?zip \<longrightarrow> node_at fs' (base @ b # q) = node_at fs (base @ b # q)"
    by simp
  have "make_github_folder base (base @ [n1]) (base @ [n2]) (base @ [nd]) fs
            = (Inr (base @ [?gr], base @ [?zip]), fs')"
    unfolding make_github_folder_def Let_def
    by (simp add: bind_def s1 s2 s3 s4 s5 s6 s7 s8 s9 s10)
  with d10 k10 show ?thesis
    by blast
qed

section \<open>Lemmas on the numbers\<close>

lemma seq_Inr [simp]: "seq (Inr x) f = f x"
  by (simp add: seq_def)

lemma seq_Inl [simp]: "seq (Inl e) f = Inl e"
  by (simp add: seq_def)

lemma seq_eq_Inr: "seq m f = Inr y \<longleftrightarrow> (\<exists>x. m = Inr x \<and> f x = Inr y)"
  by (cases m) simp_all

text \<open>Whole numbers are their own rounding.\<close>

lemma round_half_even_int [simp]: "round_half_even (of_int n) = n"
  by (simp add: round_half_even_def)

lemma floor_log2_less:
  assumes "0 < x" and "x < 2 powr of_int b"
  shows "\<lfloor>log 2 x\<rfloor> < b"
proof -
  from assms have "log 2 x < of_int b"
    by (simp add: less_powr_iff)
  then show ?thesis by (simp add: floor_less_iff)
qed

lemma to_double_exact:
  assumes "\<bar>n\<bar> < 2 ^ 53" and "k \<le> 1074"
  shows "to_double (of_int n / 2 ^ k) = Finite (of_int n / 2 ^ k)"
proof (cases "n = 0")
  case True
  then show ?thesis by (simp add: to_double_def)
next
  case False
  let ?x = "real_of_int n / 2 ^ k"
  let ?e = "max (\<lfloor>log 2 \<bar>?x\<bar>\<rfloor> - 52) (- 1074)"
  have x0: "?x \<noteq> 0" using False by simp
  have "\<bar>?x\<bar> = real_of_int \<bar>n\<bar> / 2 ^ k" by simp
  also have "\<dots> < 2 ^ 53 / 2 ^ k"
    using assms(1) by (intro divide_strict_right_mono) (simp_all add: of_int_less_numeral_power_cancel_iff)
  also have "\<dots> = 2 powr of_int (53 - int k)"
    by (simp add: powr_diff powr_realpow)
  finally have "\<bar>?x\<bar> < 2 powr of_int (53 - int k)" .
  with x0 have "\<lfloor>log 2 \<bar>?x\<bar>\<rfloor> < 53 - int k"
    by (intro floor_log2_less) simp_all
  with assms(2) have e: "?e \<le> - int k" by simp
  define d where "d = nat (- int k - ?e)"
  with e have d: "?e = - int k - int d" by simp
  have "?x / 2 powr of_int ?e = of_int (n * 2 ^ d)"
    unfolding d by (simp add: powr_diff powr_minus powr_realpow field_simps)
  then have r: "of_int (round_half_even (?x / 2 powr of_int ?e)) * 2 powr of_int ?e = ?x"
    by (simp only: round_half_even_int) (simp add: d powr_diff powr_minus powr_realpow field_simps)
  have "\<bar>?x\<bar> \<le> real_of_int \<bar>n\<bar>"
    by (simp add: divide_le_eq mult_le_cancel_left1) 
  also have "\<dots> < 2 ^ 53" using assms(1) by (simp add: of_int_less_numeral_power_cancel_iff)
  also have "\<dots> \<le> (2::real) ^ 1024" by simp
  finally have "\<not> 2 ^ 1024 \<le> \<bar>?x\<bar>" by simp
  with x0 r show ?thesis
    by (simp add: to_double_def Let_def)
qed

lemma round_half_even_bound:
  assumes "\<bar>x\<bar> \<le> of_int b"
  shows "\<bar>round_half_even x\<bar> \<le> b"
proof -
  have "\<lfloor>x\<rfloor> \<le> round_half_even x" "round_half_even x \<le> \<lceil>x\<rceil>"
    unfolding round_half_even_def Let_def by (auto simp: ceiling_altdef)
  moreover from assms have "- b \<le> \<lfloor>x\<rfloor>" "\<lceil>x\<rceil> \<le> b"
    by (simp_all add: le_floor_iff ceiling_le_iff abs_le_iff)
  ultimately show ?thesis by linarith
qed

lemma to_double_normal:
  assumes lo: "2 powr of_int E \<le> \<bar>x\<bar>" and hi: "\<bar>x\<bar> < 2 powr of_int (E + 1)"
    and range: "- 1022 \<le> E" "E < 1023"
  shows "to_double x =
     Finite (of_int (round_half_even (x / 2 powr of_int (E - 52))) * 2 powr of_int (E - 52))"
proof -
  from lo have x0: "x \<noteq> 0"
    by (auto simp: not_le [symmetric])
  then have "\<lfloor>log 2 \<bar>x\<bar>\<rfloor> = E"
    using lo hi by (simp add: floor_log_eq_powr_iff)
  with range have e: "max (\<lfloor>log 2 \<bar>x\<bar>\<rfloor> - 52) (- 1074) = E - 52"
    by simp
  let ?q = "x / 2 powr of_int (E - 52)"
  have "\<bar>?q\<bar> = \<bar>x\<bar> / 2 powr of_int (E - 52)"
    by simp
  also have "\<dots> \<le> 2 powr of_int (E + 1) / 2 powr of_int (E - 52)"
    using hi by (intro divide_right_mono) simp_all
  also have "\<dots> = 2 powr 53"
    by (simp add: powr_diff [symmetric])
  also have "\<dots> = of_int (2 ^ 53)"
    using powr_realpow [of 2 53] by simp
  finally have "\<bar>round_half_even ?q\<bar> \<le> 2 ^ 53"
    by (rule round_half_even_bound)
  then have "\<bar>real_of_int (round_half_even ?q)\<bar> \<le> 2 ^ 53"
    by (metis of_int_abs of_int_le_numeral_power_cancel_iff)
  then have "\<bar>real_of_int (round_half_even ?q) * 2 powr of_int (E - 52)\<bar> \<le> 2 ^ 53 * 2 powr of_int (E - 52)"
    by (simp add: abs_mult mult_right_mono)
  also have "\<dots> = 2 powr 53 * 2 powr of_int (E - 52)"
    using powr_realpow [of 2 53] by simp
  also have "\<dots> = 2 powr (53 + of_int (E - 52))"
    by (rule powr_add [symmetric])
  also have "\<dots> = 2 powr of_int (E + 1)"
    by (simp add: add.commute)
  also have "\<dots> \<le> 2 powr of_int 1023"
    by (rule powr_mono) (use range in simp_all)
  also have "\<dots> < 2 powr of_int 1024"
    by (rule powr_less_mono) simp_all
  also have "\<dots> = 2 ^ 1024"
    using powr_realpow [of 2 1024] by simp
  finally have "\<not> 2 ^ 1024 \<le> \<bar>real_of_int (round_half_even ?q) * 2 powr of_int (E - 52)\<bar>"
    by simp
  with x0 e show ?thesis
    by (simp add: to_double_def Let_def)
qed

lemma to_double_24_5: "to_double (24 / 5) = Finite (5404319552844595 / 2 ^ 50)"
proof -
  have "to_double (24 / 5) =
      Finite (of_int (round_half_even ((24 / 5) / 2 powr of_int (2 - 52))) * 2 powr of_int (2 - 52))"
    by (rule to_double_normal) simp_all
  also have "(24 / 5) / 2 powr of_int (2 - 52) = (24 / 5 * 2 ^ 50 :: real)"
    using powr_realpow [of 2 50] by (simp add: powr_minus field_simps)
  also have "round_half_even (24 / 5 * 2 ^ 50) = 5404319552844595"
    by (simp add: round_half_even_def Let_def)
  finally show ?thesis
    using powr_realpow [of 2 50] by (simp add: powr_minus field_simps)
qed

lemma to_double_12_5: "to_double (12 / 5) = Finite (5404319552844595 / 2 ^ 51)"
proof -
  have "to_double (12 / 5) =
      Finite (of_int (round_half_even ((12 / 5) / 2 powr of_int (1 - 52))) * 2 powr of_int (1 - 52))"
    by (rule to_double_normal) simp_all
  also have "(12 / 5) / 2 powr of_int (1 - 52) = (12 / 5 * 2 ^ 51 :: real)"
    using powr_realpow [of 2 51] by (simp add: powr_minus field_simps)
  also have "round_half_even (12 / 5 * 2 ^ 51) = 5404319552844595"
    by (simp add: round_half_even_def Let_def)
  finally show ?thesis
    using powr_realpow [of 2 51] by (simp add: powr_minus field_simps)
qed

lemma to_double_int: "\<bar>n\<bar> < 2 ^ 53 \<Longrightarrow> to_double (of_int n) = Finite (of_int n)"
  using to_double_exact [of n 0] by simp

lemma float_of_int_exact: "\<bar>n\<bar> < 2 ^ 53 \<Longrightarrow> float_of_int n = Inr (Finite (of_int n))"
  by (simp add: float_of_int_def to_double_int)

section \<open>Lemmas on the image renderers\<close>

lemma for_each_map [simp]: "for_each (\<lambda>x. Inr (g x)) xs = Inr (map g xs)"
  by (induction xs) simp_all

lemma for_each_cong:
  "(\<And>x. x \<in> set xs \<Longrightarrow> f x = g x) \<Longrightarrow> for_each f xs = for_each g xs"
  by (induction xs) simp_all

lemma draw_text_font [simp]:
  "draw_text lib xy s fill (Some f) img = Inr (img @ [DrawText xy s fill f])"
  by (simp add: draw_text_def)

lemma draw_text_no_font:
  "load_default lib = Inl e \<Longrightarrow> draw_text lib xy s fill None img = Inl e"
  by (simp add: draw_text_def)

lemma uniform_image_font: "uniform_image lib (Some DefaultFont) = Inr example_image"
  by (simp add: uniform_image_def example_image_def draw_rectangle_def)

lemma uniform_image_no_font:
  "load_default lib = Inl e \<Longrightarrow> uniform_image lib None = Inl e"
  by (simp add: uniform_image_def draw_text_no_font)

text \<open>
  When the font cannot be loaded, the first text that is drawn raises the exception of
  the loading, and the renderer writes nothing.
\<close>

lemma make_uniform_image_no_font:
  "load_default lib = Inl e \<Longrightarrow> make_uniform_image lib p fs = (Inl e, fs)"
  by (simp add: make_uniform_image_def uniform_image_no_font)

lemma make_uniform_image_font:
  "load_default lib = Inr f \<Longrightarrow> registered lib (name p) \<Longrightarrow>
     make_uniform_image lib p fs = write_file p (Png example_image) fs"
  by (cases f) (simp add: make_uniform_image_def uniform_image_font save_image_def)

lemma concat_rows_length:
  "length (concat (map (\<lambda>i. map (f i) [0..<cols]) [0..<rows])) = rows * cols"
  by (induction rows) auto

lemma concat_rows_nth:
  "i < rows \<Longrightarrow> j < cols \<Longrightarrow>
     concat (map (\<lambda>i. map (f i) [0..<cols]) [0..<rows]) ! (i * cols + j) = f i j"
proof (induction rows)
  case 0
  then show ?case by simp
next
  case (Suc rows)
  show ?case
  proof (cases "i < rows")
    case True
    have "i * cols + j < Suc i * cols"
      using Suc.prems(2) by simp
    also have "\<dots> \<le> rows * cols"
      using True by (intro mult_le_mono1) simp
    finally have "i * cols + j < rows * cols" .
    with Suc True show ?thesis
      by (simp add: nth_append concat_rows_length)
  next
    case False
    with Suc.prems have "i = rows" by simp
    with Suc.prems show ?thesis
      by (simp add: nth_append concat_rows_length)
  qed
qed

lemma py_range_rows:
  "concat (map (\<lambda>i. map (f i) (py_range cols)) (py_range rows))
     = concat (map (\<lambda>i. map (\<lambda>j. f (int i) (int j)) [0..<nat cols]) [0..<nat rows])"
  by (simp add: py_range_def comp_def)

text \<open>The figure for a radius that is an \<^verbatim>\<open>int\<close>: all its numbers are whole.\<close>

lemma figure_of_int_radius:
  assumes "packed_spheres_figure lib rows cols (PyInt r) = Inr fig"
  shows "xlim fig = (0, cols * (2 * r) * 30)"
    and "ylim fig = (0, rows * (2 * r) * 30)"
    and "patches fig = concat (map (\<lambda>i. map (\<lambda>j.
            \<lparr>center_x = PyInt (j * (2 * r) * 30 + r * 30),
             center_y = PyInt (i * (2 * r) * 30 + r * 30),
             radius_px = PyInt (r * 30)\<rparr>) (py_range cols)) (py_range rows))"
  using assms
  by (auto simp: packed_spheres_figure_def Let_def seq_eq_Inr)

lemma example_figure_eq:
  assumes "subplots lib (figsize example_figure) = None"
  shows "packed_spheres_figure lib 2 4 (PyInt 2) = Inr example_figure"
proof -
  have "py_truediv 480 100 = Inr (Finite (5404319552844595 / 2 ^ 50))"
    using to_double_24_5 by (simp add: py_truediv_def)
  moreover have "py_truediv 240 100 = Inr (Finite (5404319552844595 / 2 ^ 51))"
    using to_double_12_5 by (simp add: py_truediv_def)
  moreover have "py_range 4 = [0, 1, 2, 3]" "py_range 2 = [0, 1]"
    by (simp_all add: py_range_def upt_rec)
  ultimately show ?thesis
    using assms
    by (simp add: packed_spheres_figure_def Let_def example_figure_def raising_def)
qed

text \<open>
  The arithmetic on a \<^verbatim>\<open>float\<close> \<open>m / 2 ^ k\<close> is exact as long as the mantissas stay
  below \<open>2 ^ 53\<close>.
\<close>

lemma small_product:
  fixes a m N B :: int
  assumes "\<bar>a\<bar> \<le> 60 * N" and "60 * \<bar>m\<bar> * N < B"
  shows "\<bar>a * m\<bar> < B"
proof -
  have "\<bar>a * m\<bar> = \<bar>a\<bar> * \<bar>m\<bar>" by (simp add: abs_mult)
  also have "\<dots> \<le> 60 * N * \<bar>m\<bar>"
    using assms(1) by (intro mult_right_mono) simp_all
  also have "\<dots> = 60 * \<bar>m\<bar> * N" by simp
  finally show ?thesis using assms(2) by simp
qed

lemma mul_int_float_exact:
  assumes "\<bar>a\<bar> < 2 ^ 53" and "\<bar>a * m\<bar> < 2 ^ 53" and "k \<le> 1074"
  shows "py_mul (PyInt a) (PyFloat (Finite (of_int m / 2 ^ k)))
           = Inr (PyFloat (Finite (of_int (a * m) / 2 ^ k)))"
proof -
  have "to_double (of_int a * (of_int m / 2 ^ k)) = to_double (of_int (a * m) / 2 ^ k)"
    by simp
  with to_double_exact [OF assms(2,3)] show ?thesis
    by (simp add: float_of_int_exact [OF assms(1)])
qed

lemma mul_float_int_exact:
  assumes "\<bar>a\<bar> < 2 ^ 53" and "\<bar>m * a\<bar> < 2 ^ 53" and "k \<le> 1074"
  shows "py_mul (PyFloat (Finite (of_int m / 2 ^ k))) (PyInt a)
           = Inr (PyFloat (Finite (of_int (m * a) / 2 ^ k)))"
proof -
  have "to_double (of_int m / 2 ^ k * of_int a) = to_double (of_int (m * a) / 2 ^ k)"
    by simp
  with to_double_exact [OF assms(2,3)] show ?thesis
    by (simp add: float_of_int_exact [OF assms(1)])
qed

lemma add_float_exact:
  assumes "\<bar>a + b\<bar> < 2 ^ 53" and "k \<le> 1074"
  shows "py_add (PyFloat (Finite (of_int a / 2 ^ k))) (PyFloat (Finite (of_int b / 2 ^ k)))
           = Inr (PyFloat (Finite (of_int (a + b) / 2 ^ k)))"
proof -
  have "to_double (of_int a / 2 ^ k + of_int b / 2 ^ k) = to_double (of_int (a + b) / 2 ^ k)"
    by (simp add: add_divide_distrib)
  with to_double_exact [OF assms] show ?thesis
    by simp
qed

lemma py_range_bounds: "x \<in> set (py_range n) \<Longrightarrow> 0 \<le> x \<and> x < n"
  by (auto simp: py_range_def)

lemma figure_of_exact_float:
  assumes m: "0 < m" and k: "k \<le> 1074"
    and small: "60 * \<bar>m\<bar> * max 1 (max \<bar>rows\<bar> \<bar>cols\<bar>) < 2 ^ 53"
  shows "packed_spheres_figure lib rows cols (PyFloat (Finite (of_int m / 2 ^ k))) =
     seq (py_truediv (towards_zero (of_int (cols * (2 * m) * 30) / 2 ^ k)) 100) (\<lambda>width_in.
     seq (py_truediv (towards_zero (of_int (rows * (2 * m) * 30) / 2 ^ k)) 100) (\<lambda>height_in.
     seq (raising (subplots lib (width_in, height_in))) (\<lambda>u.
     Inr \<lparr>figsize = (width_in, height_in), dpi = 100,
          patches = concat (map (\<lambda>i. map (\<lambda>j.
            \<lparr>center_x = PyFloat (Finite (of_int (j * (2 * m) * 30 + m * 30) / 2 ^ k)),
             center_y = PyFloat (Finite (of_int (i * (2 * m) * 30 + m * 30) / 2 ^ k)),
             radius_px = PyFloat (Finite (of_int (m * 30) / 2 ^ k))\<rparr>) (py_range cols)) (py_range rows)),
          xlim = (0, towards_zero (of_int (cols * (2 * m) * 30) / 2 ^ k)),
          ylim = (0, towards_zero (of_int (rows * (2 * m) * 30) / 2 ^ k))\<rparr>)))"
proof -
  define N where "N = max 1 (max \<bar>rows\<bar> \<bar>cols\<bar>)"
  have N: "1 \<le> N" "\<bar>rows\<bar> \<le> N" "\<bar>cols\<bar> \<le> N"
    by (simp_all add: N_def)
  from small have B: "60 * \<bar>m\<bar> * N < 2 ^ 53"
    by (simp add: N_def)
  have prod: "\<bar>a * m\<bar> < 2 ^ 53" if "\<bar>a\<bar> \<le> 60 * N" for a
    using that B by (rule small_product)
  have int: "\<bar>a\<bar> < 2 ^ 53" if "\<bar>a\<bar> \<le> 60 * N" for a
  proof -
    have "\<bar>a\<bar> \<le> \<bar>a\<bar> * \<bar>m\<bar>" using m by (simp add: mult_le_cancel_left1)
    also have "\<dots> = \<bar>a * m\<bar>" by (simp add: abs_mult)
    finally show ?thesis using prod [OF that] by simp
  qed
  let ?R = "PyFloat (Finite (of_int m / 2 ^ k))"
  let ?D = "PyFloat (Finite (of_int (2 * m) / 2 ^ k))"
  let ?P = "PyFloat (Finite (of_int (m * 30) / 2 ^ k))"
  have d: "py_mul (PyInt 2) ?R = Inr ?D"
    using mul_int_float_exact [of 2 m k] prod [of 2] N k by simp
  have p: "py_mul ?R (PyInt 30) = Inr ?P"
    using mul_float_int_exact [of 30 m k] prod [of 30] N k by (simp add: mult.commute)
  have a1: "py_mul (PyInt a) ?D = Inr (PyFloat (Finite (of_int (a * (2 * m)) / 2 ^ k)))"
    if "\<bar>a\<bar> \<le> N" for a
  proof -
    from that N have "\<bar>a\<bar> \<le> 60 * N" "\<bar>a * 2\<bar> \<le> 60 * N" by simp_all
    from int [OF this(1)] prod [OF this(2)] show ?thesis
      by (intro mul_int_float_exact k) (simp_all add: mult.assoc)
  qed
  have a2: "py_mul (PyFloat (Finite (of_int (a * (2 * m)) / 2 ^ k))) (PyInt 30)
      = Inr (PyFloat (Finite (of_int (a * (2 * m) * 30) / 2 ^ k)))"
    if "\<bar>a\<bar> \<le> N" for a
  proof -
    from that N have "\<bar>a * 60\<bar> \<le> 60 * N" by simp
    from prod [OF this] have "\<bar>a * (2 * m) * 30\<bar> < 2 ^ 53"
      by (simp add: mult.assoc mult.left_commute)
    then show ?thesis
      by (intro mul_float_int_exact k) simp_all
  qed
  have a3: "py_add (PyFloat (Finite (of_int (a * (2 * m) * 30) / 2 ^ k))) ?P
      = Inr (PyFloat (Finite (of_int (a * (2 * m) * 30 + m * 30) / 2 ^ k)))"
    if "0 \<le> a" "a < N" for a
  proof -
    have "a * (2 * m) * 30 + m * 30 = (a * 60 + 30) * m"
      by (simp add: algebra_simps)
    moreover have "\<bar>(a * 60 + 30) * m\<bar> < 2 ^ 53"
      using that by (intro prod) simp
    ultimately show ?thesis
      by (intro add_float_exact k) simp
  qed
  have circles: "for_each (\<lambda>i. for_each (\<lambda>j.
             seq (seq (seq (py_mul (PyInt j) ?D) (\<lambda>x. py_mul x (PyInt 30))) (\<lambda>x. py_add x ?P)) (\<lambda>cx.
             seq (seq (seq (py_mul (PyInt i) ?D) (\<lambda>y. py_mul y (PyInt 30))) (\<lambda>y. py_add y ?P)) (\<lambda>cy.
             Inr \<lparr>center_x = cx, center_y = cy, radius_px = ?P\<rparr>)))
             (py_range cols)) (py_range rows)
      = for_each (\<lambda>i. for_each (\<lambda>j.
             Inr \<lparr>center_x = PyFloat (Finite (of_int (j * (2 * m) * 30 + m * 30) / 2 ^ k)),
                  center_y = PyFloat (Finite (of_int (i * (2 * m) * 30 + m * 30) / 2 ^ k)),
                  radius_px = ?P\<rparr>) (py_range cols)) (py_range rows)"
  proof (intro for_each_cong)
    fix i j
    assume "i \<in> set (py_range rows)" "j \<in> set (py_range cols)"
    then have "0 \<le> i" "i < N" "\<bar>i\<bar> \<le> N" "0 \<le> j" "j < N" "\<bar>j\<bar> \<le> N"
      using N py_range_bounds [of i rows] py_range_bounds [of j cols] by simp_all
    then show "seq (seq (seq (py_mul (PyInt j) ?D) (\<lambda>x. py_mul x (PyInt 30))) (\<lambda>x. py_add x ?P)) (\<lambda>cx.
             seq (seq (seq (py_mul (PyInt i) ?D) (\<lambda>y. py_mul y (PyInt 30))) (\<lambda>y. py_add y ?P)) (\<lambda>cy.
             Inr \<lparr>center_x = cx, center_y = cy, radius_px = ?P\<rparr>))
      = Inr \<lparr>center_x = PyFloat (Finite (of_int (j * (2 * m) * 30 + m * 30) / 2 ^ k)),
                  center_y = PyFloat (Finite (of_int (i * (2 * m) * 30 + m * 30) / 2 ^ k)),
                  radius_px = ?P\<rparr>"
      by (simp only: a1 a2 a3 seq_Inr)
  qed
  from a1 [of cols] a2 [of cols] N
  have w: "seq (seq (py_mul (PyInt cols) ?D) (\<lambda>w. py_mul w (PyInt 30))) py_int
      = Inr (towards_zero (of_int (cols * (2 * m) * 30) / 2 ^ k))"
    by simp
  from a1 [of rows] a2 [of rows] N
  have h: "seq (seq (py_mul (PyInt rows) ?D) (\<lambda>w. py_mul w (PyInt 30))) py_int
      = Inr (towards_zero (of_int (rows * (2 * m) * 30) / 2 ^ k))"
    by simp
  show ?thesis
    unfolding packed_spheres_figure_def Let_def d p seq_Inr w h circles
    by simp
qed

lemma figure_of_int_radius_eq:
  "packed_spheres_figure lib rows cols (PyInt r) =
     seq (py_truediv (cols * (2 * r) * 30) 100) (\<lambda>width_in.
     seq (py_truediv (rows * (2 * r) * 30) 100) (\<lambda>height_in.
     seq (raising (subplots lib (width_in, height_in))) (\<lambda>u.
     Inr \<lparr>figsize = (width_in, height_in), dpi = 100,
          patches = concat (map (\<lambda>i. map (\<lambda>j.
            \<lparr>center_x = PyInt (j * (2 * r) * 30 + r * 30),
             center_y = PyInt (i * (2 * r) * 30 + r * 30),
             radius_px = PyInt (r * 30)\<rparr>) (py_range cols)) (py_range rows)),
          xlim = (0, cols * (2 * r) * 30),
          ylim = (0, rows * (2 * r) * 30)\<rparr>)))"
  by (simp add: packed_spheres_figure_def Let_def)

lemma towards_zero_of_int [simp]: "towards_zero (of_int n) = n"
  by (simp add: towards_zero_def)

lemma towards_zero_near: "\<bar>of_int (towards_zero x) - x\<bar> < 1"
  unfolding towards_zero_def by (simp split: if_splits) linarith

lemma towards_zero_whole: "x \<in> \<int> \<Longrightarrow> of_int (towards_zero x) = x"
  by (auto simp: Ints_def)

lemma to_double_3_20: "to_double (3 / 20) = Finite (5404319552844595 / 2 ^ 55)"
proof -
  have "to_double (3 / 20) =
      Finite (of_int (round_half_even ((3 / 20) / 2 powr of_int (- 3 - 52))) * 2 powr of_int (- 3 - 52))"
    by (rule to_double_normal) (simp_all add: powr_minus divide_simps)
  also have "(3 / 20) / 2 powr of_int (- 3 - 52) = (3 / 20 * 2 ^ 55 :: real)"
    using powr_realpow [of 2 55] by (simp add: powr_minus field_simps)
  also have "round_half_even (3 / 20 * 2 ^ 55) = 5404319552844595"
    by (simp add: round_half_even_def Let_def)
  finally show ?thesis
    using powr_realpow [of 2 55] by (simp add: powr_minus field_simps)
qed

lemma to_double_7_100: "to_double (7 / 100) = Finite (5044031582654956 / 2 ^ 56)"
proof -
  have "to_double (7 / 100) =
      Finite (of_int (round_half_even ((7 / 100) / 2 powr of_int (- 4 - 52))) * 2 powr of_int (- 4 - 52))"
    by (rule to_double_normal) (simp_all add: powr_minus divide_simps)
  also have "(7 / 100) / 2 powr of_int (- 4 - 52) = (7 / 100 * 2 ^ 56 :: real)"
    using powr_realpow [of 2 56] by (simp add: powr_minus field_simps)
  also have "round_half_even (7 / 100 * 2 ^ 56) = 5044031582654956"
    by (simp add: round_half_even_def Let_def)
  finally show ?thesis
    using powr_realpow [of 2 56] by (simp add: powr_minus field_simps)
qed

text \<open>
  The figure in real numbers, for a radius on which the arithmetic is exact: the sizes
  in pixels, the number of circles and the circle of each row and column.
\<close>

lemma figure_values:
  assumes run: "packed_spheres_figure lib rows cols radius = Inr fig"
    and pos: "0 < value_of radius"
    and exact: "exact_for rows cols radius"
  shows "xlim fig = (0, towards_zero (of_int cols * (2 * value_of radius) * 30))"
    and "ylim fig = (0, towards_zero (of_int rows * (2 * value_of radius) * 30))"
    and "length (patches fig) = nat rows * nat cols"
    and "i < nat rows \<Longrightarrow> j < nat cols \<Longrightarrow>
           value_of (center_x (circle_at fig (nat cols) i j))
             = real j * (2 * value_of radius) * 30 + value_of radius * 30
         \<and> value_of (center_y (circle_at fig (nat cols) i j))
             = real i * (2 * value_of radius) * 30 + value_of radius * 30
         \<and> value_of (radius_px (circle_at fig (nat cols) i j)) = value_of radius * 30"
proof -
  have "xlim fig = (0, towards_zero (of_int cols * (2 * value_of radius) * 30))
      \<and> ylim fig = (0, towards_zero (of_int rows * (2 * value_of radius) * 30))
      \<and> length (patches fig) = nat rows * nat cols
      \<and> (i < nat rows \<longrightarrow> j < nat cols \<longrightarrow>
           value_of (center_x (circle_at fig (nat cols) i j))
             = real j * (2 * value_of radius) * 30 + value_of radius * 30
         \<and> value_of (center_y (circle_at fig (nat cols) i j))
             = real i * (2 * value_of radius) * 30 + value_of radius * 30
         \<and> value_of (radius_px (circle_at fig (nat cols) i j)) = value_of radius * 30)"
  proof (cases radius)
    case (PyInt r)
    have w: "of_int cols * (2 * of_int r) * 30 = real_of_int (cols * (2 * r) * 30)"
      and h: "of_int rows * (2 * of_int r) * 30 = real_of_int (rows * (2 * r) * 30)"
      by simp_all
    from run obtain wi hi where "fig =
        \<lparr>figsize = (wi, hi), dpi = 100,
          patches = concat (map (\<lambda>i. map (\<lambda>j.
            \<lparr>center_x = PyInt (j * (2 * r) * 30 + r * 30),
             center_y = PyInt (i * (2 * r) * 30 + r * 30),
             radius_px = PyInt (r * 30)\<rparr>) (py_range cols)) (py_range rows)),
          xlim = (0, cols * (2 * r) * 30),
          ylim = (0, rows * (2 * r) * 30)\<rparr>"
      unfolding PyInt figure_of_int_radius_eq by (auto simp: seq_eq_Inr)
    then show ?thesis
      unfolding PyInt value_of.simps w h towards_zero_of_int
      by (simp add: py_range_rows concat_rows_length concat_rows_nth circle_at_def)
  next
    case (PyFloat d)
    show ?thesis
    proof (cases d)
      case (Finite x)
      with exact PyFloat obtain m k where x: "x = of_int m / 2 ^ k" and k: "k \<le> 1074"
        and small: "60 * \<bar>m\<bar> * max 1 (max \<bar>rows\<bar> \<bar>cols\<bar>) < 2 ^ 53"
        by auto
      from pos PyFloat Finite x have m: "0 < m"
        by (simp add: zero_less_divide_iff)
      have w: "of_int cols * (2 * (of_int m / 2 ^ k)) * 30 = real_of_int (cols * (2 * m) * 30) / 2 ^ k"
        and h: "of_int rows * (2 * (of_int m / 2 ^ k)) * 30 = real_of_int (rows * (2 * m) * 30) / 2 ^ k"
        by simp_all
      have c: "real_of_int (a * (2 * m) * 30 + m * 30) / 2 ^ k
          = of_int a * (2 * (of_int m / 2 ^ k)) * 30 + of_int m / 2 ^ k * 30" for a
        by (simp add: add_divide_distrib)
      from run obtain wi hi where "fig =
        \<lparr>figsize = (wi, hi), dpi = 100,
          patches = concat (map (\<lambda>i. map (\<lambda>j.
            \<lparr>center_x = PyFloat (Finite (of_int (j * (2 * m) * 30 + m * 30) / 2 ^ k)),
             center_y = PyFloat (Finite (of_int (i * (2 * m) * 30 + m * 30) / 2 ^ k)),
             radius_px = PyFloat (Finite (of_int (m * 30) / 2 ^ k))\<rparr>) (py_range cols)) (py_range rows)),
          xlim = (0, towards_zero (of_int (cols * (2 * m) * 30) / 2 ^ k)),
          ylim = (0, towards_zero (of_int (rows * (2 * m) * 30) / 2 ^ k))\<rparr>"
        unfolding PyFloat Finite x figure_of_exact_float [OF m k small] by (auto simp: seq_eq_Inr)
      then show ?thesis
        unfolding PyFloat Finite x value_of.simps w h
        by (simp add: py_range_rows concat_rows_length concat_rows_nth circle_at_def
              add_divide_distrib)
    next
      case (Infinity neg)
      with exact PyFloat show ?thesis by simp
    next
      case NaN
      with exact PyFloat show ?thesis by simp
    qed
  qed
  then show "xlim fig = (0, towards_zero (of_int cols * (2 * value_of radius) * 30))"
    and "ylim fig = (0, towards_zero (of_int rows * (2 * value_of radius) * 30))"
    and "length (patches fig) = nat rows * nat cols"
    and "i < nat rows \<Longrightarrow> j < nat cols \<Longrightarrow>
           value_of (center_x (circle_at fig (nat cols) i j))
             = real j * (2 * value_of radius) * 30 + value_of radius * 30
         \<and> value_of (center_y (circle_at fig (nat cols) i j))
             = real i * (2 * value_of radius) * 30 + value_of radius * 30
         \<and> value_of (radius_px (circle_at fig (nat cols) i j)) = value_of radius * 30"
    by simp_all
qed

lemma towards_zero_numeral [simp]: "towards_zero (numeral n) = numeral n"
  by (simp add: towards_zero_def)

lemma small_figure_eq:
  "packed_spheres_figure working_libraries 1 2 (PyFloat (Finite (1 / 8))) = Inr small_figure"
proof -
  have "py_truediv 15 100 = Inr (Finite (5404319552844595 / 2 ^ 55))"
    using to_double_3_20 by (simp add: py_truediv_def)
  moreover have "py_truediv 7 100 = Inr (Finite (5044031582654956 / 2 ^ 56))"
    using to_double_7_100 by (simp add: py_truediv_def)
  moreover have "py_range 2 = [0, 1]" "py_range 1 = [0]"
    by (simp_all add: py_range_def upt_rec)
  moreover have "towards_zero (15 / 2) = 7"
    by (simp add: towards_zero_def)
  ultimately show ?thesis
    using figure_of_exact_float [of 1 3 1 2 working_libraries]
    by (simp add: small_figure_def working_libraries_def raising_def)
qed

section \<open>Lemmas on the composer and the pipeline\<close>

lemma read_image_Inr:
  "read_image p fs = (Inr x, s) \<Longrightarrow> s = fs \<and> node_at fs p = Some (File x)"
  by (auto simp: read_image_def split: option.splits node.splits content.splits)

lemma read_image_ok:
  "is_image fs p \<Longrightarrow> \<exists>x. read_image p fs = (Inr x, fs) \<and> node_at fs p = Some (File x)"
  by (auto simp: read_image_def is_image_def split: option.splits node.splits content.splits)

text \<open>
  The document that the composer has written holds the fixed blocks, with the two images
  as they were read.
\<close>

lemma create_docx_result:
  assumes "create_docx p img1 img2 fs = (Inr u, fs')"
  shows "\<exists>pic1 pic2. node_at fs img1 = Some (File pic1) \<and> node_at fs img2 = Some (File pic2)
           \<and> node_at fs' p = Some (File (Docx (create_docx_blocks pic1 pic2)))"
proof -
  from assms obtain pic1 s1 pic2 s2 where
    r1: "read_image img1 fs = (Inr pic1, s1)" and r2: "read_image img2 s1 = (Inr pic2, s2)"
    and w: "write_file p (Docx (create_docx_blocks pic1 pic2)) s2 = (Inr u, fs')"
    unfolding create_docx_def bind_Inr by blast
  from read_image_Inr [OF r1] have "s1 = fs" "node_at fs img1 = Some (File pic1)" by simp_all
  moreover from read_image_Inr [OF r2] \<open>s1 = fs\<close> have "node_at fs img2 = Some (File pic2)" by simp
  moreover note write_file_at [OF w]
  ultimately show ?thesis by blast
qed

lemma document_at_create_docx:
  assumes "create_docx p img1 img2 fs = (Inr u, fs')"
  shows "\<exists>pic1 pic2. document_at fs' p = create_docx_blocks pic1 pic2"
proof -
  from create_docx_result [OF assms] obtain pic1 pic2 where
    "node_at fs' p = Some (File (Docx (create_docx_blocks pic1 pic2)))" by blast
  then have "document_at fs' p = create_docx_blocks pic1 pic2"
    by (simp add: document_at_def)
  then show ?thesis by blast
qed

text \<open>
  The composer returns whenever the two images can be read and the document can be
  written; it changes nothing but the document.
\<close>

lemma create_docx_returns:
  assumes "is_image fs img1" and "is_image fs img2"
    and "is_dir fs base" and "\<not> is_dir fs (base @ [nd])"
  shows "\<exists>fs' pic1 pic2. create_docx (base @ [nd]) img1 img2 fs = (Inr (), fs')
           \<and> node_at fs img1 = Some (File pic1) \<and> node_at fs img2 = Some (File pic2)
           \<and> node_at fs' (base @ [nd]) = Some (File (Docx (create_docx_blocks pic1 pic2)))
           \<and> is_dir fs' base
           \<and> (\<forall>b q. b \<noteq> nd \<longrightarrow> node_at fs' (base @ b # q) = node_at fs (base @ b # q))"
proof -
  from read_image_ok [OF assms(1)] obtain pic1 where
    r1: "read_image img1 fs = (Inr pic1, fs)" and n1: "node_at fs img1 = Some (File pic1)" by blast
  from read_image_ok [OF assms(2)] obtain pic2 where
    r2: "read_image img2 fs = (Inr pic2, fs)" and n2: "node_at fs img2 = Some (File pic2)" by blast
  from write_file_child [OF assms(3,4), of "Docx (create_docx_blocks pic1 pic2)"] obtain fs' where
    w: "write_file (base @ [nd]) (Docx (create_docx_blocks pic1 pic2)) fs = (Inr (), fs')"
    and "node_at fs' (base @ [nd]) = Some (File (Docx (create_docx_blocks pic1 pic2)))"
    and "is_dir fs' base"
    and "\<forall>b q. b \<noteq> nd \<longrightarrow> node_at fs' (base @ b # q) = node_at fs (base @ b # q)"
    by blast
  moreover have "create_docx (base @ [nd]) img1 img2 fs = (Inr (), fs')"
    by (simp add: create_docx_def bind_def r1 r2 w)
  ultimately show ?thesis
    using n1 n2 by blast
qed

text \<open>The texts that the assembler has written.\<close>

lemma make_github_folder_texts:
  assumes "make_github_folder base img1 img2 docx fs = (Inr (rd, zp), fs')"
  shows "name docx \<noteq> ''README.md'' \<Longrightarrow> text_at fs' (rd @ [''README.md'']) = readme_text"
    and "name docx \<noteq> ''QUESTIONS.md'' \<Longrightarrow> text_at fs' (rd @ [''QUESTIONS.md'']) = questions_md_text"
proof -
  from make_github_folder_result [OF assms] obtain x1 x2 xd where
    t: "node_at fs' rd = Some (package_tree (name img1) x1 (name img2) x2 (name docx) xd)"
    by auto
  show "name docx \<noteq> ''README.md'' \<Longrightarrow> text_at fs' (rd @ [''README.md'']) = readme_text"
    and "name docx \<noteq> ''QUESTIONS.md'' \<Longrightarrow> text_at fs' (rd @ [''QUESTIONS.md'']) = questions_md_text"
    using t by (auto simp: text_at_def node_at_append package_tree_def Let_def)
qed

text \<open>
  With libraries that work, the pipeline returns on every valid output directory, and it
  leaves a valid output directory: the next run returns as well.
\<close>

lemma generate_artifacts_returns:
  assumes lib: "libraries_work lib" and valid: "valid_output_directory fs base"
  shows "\<exists>fs'. generate_artifacts lib base fs
            = (Inr (base @ [''github_repo''], base @ [''github_repo.zip'']), fs')
          \<and> valid_output_directory fs' base
          \<and> node_at fs' (base @ [''generated_assessment.docx''])
              = Some (File (Docx (create_docx_blocks (Png example_image) (Plot example_figure))))"
proof -
  let ?u = "''uniform_table.png''"
  let ?r = "''rect_package_topview_8.png''"
  let ?d = "''generated_assessment.docx''"
  let ?gr = "''github_repo''"
  let ?zip = "''github_repo.zip''"
  from lib have l1: "load_default lib = Inr DefaultFont" and l2: "registered lib ?u"
    and l3: "subplots lib (figsize example_figure) = None"
    and l4: "savefig lib example_figure ?r = None"
    by (simp_all add: libraries_work_def)
  from valid obtain fs0 where
    s0: "mkdir_parents True base fs = (Inr (), fs0)" and r0: "ready fs0 base"
    by (auto simp: valid_output_directory_def split: prod.splits sum.splits)
  from r0 have d0: "is_dir fs0 base" and u0: "\<not> is_dir fs0 (base @ [?u])"
    and p0: "\<not> is_dir fs0 (base @ [?r])" and x0: "\<not> is_dir fs0 (base @ [?d])"
    and g0: "path_exists fs0 (base @ [?gr]) \<longrightarrow> is_dir fs0 (base @ [?gr])"
    and z0: "\<not> is_dir fs0 (base @ [?zip])"
    by (simp_all add: ready_def)
  from write_file_child [OF d0 u0, of "Png example_image"] obtain fs1 where
    s1: "write_file (base @ [?u]) (Png example_image) fs0 = (Inr (), fs1)"
    and u1: "node_at fs1 (base @ [?u]) = Some (File (Png example_image))"
    and d1: "is_dir fs1 base"
    and k1: "\<forall>b q. b \<noteq> ?u \<longrightarrow> node_at fs1 (base @ b # q) = node_at fs0 (base @ b # q)"
    by blast
  from l1 l2 s1 have s1': "make_uniform_image lib (base @ [?u]) fs0 = (Inr (), fs1)"
    by (simp add: make_uniform_image_font)
  from k1 p0 have p1: "\<not> is_dir fs1 (base @ [?r])"
    by (simp add: is_dir_def)
  from write_file_child [OF d1 p1, of "Plot example_figure"] obtain fs2 where
    s2: "write_file (base @ [?r]) (Plot example_figure) fs1 = (Inr (), fs2)"
    and p2: "node_at fs2 (base @ [?r]) = Some (File (Plot example_figure))"
    and d2: "is_dir fs2 base"
    and k2: "\<forall>b q. b \<noteq> ?r \<longrightarrow> node_at fs2 (base @ b # q) = node_at fs1 (base @ b # q)"
    by blast
  from l3 l4 s2 have s2': "make_packed_spheres_image lib (base @ [?r]) 2 4 (PyInt 2) fs1 = (Inr (), fs2)"
    by (simp add: make_packed_spheres_image_def example_figure_eq)
  from k2 u1 have u2: "node_at fs2 (base @ [?u]) = Some (File (Png example_image))"
    by simp
  from u2 p2 have i2: "is_image fs2 (base @ [?u])" "is_image fs2 (base @ [?r])"
    by (simp_all add: is_image_def)
  from k1 k2 x0 have x2: "\<not> is_dir fs2 (base @ [?d])"
    by (simp add: is_dir_def)
  from create_docx_returns [OF i2 d2 x2] u2 p2 obtain fs3 where
    s3: "create_docx (base @ [?d]) (base @ [?u]) (base @ [?r]) fs2 = (Inr (), fs3)"
    and x3: "node_at fs3 (base @ [?d])
        = Some (File (Docx (create_docx_blocks (Png example_image) (Plot example_figure))))"
    and d3: "is_dir fs3 base"
    and k3: "\<forall>b q. b \<noteq> ?d \<longrightarrow> node_at fs3 (base @ b # q) = node_at fs2 (base @ b # q)"
    by auto
  from k3 u2 p2 have u3: "node_at fs3 (base @ [?u]) = Some (File (Png example_image))"
    and p3: "node_at fs3 (base @ [?r]) = Some (File (Plot example_figure))"
    by simp_all
  from k1 k2 k3 have "node_at fs3 (base @ [?gr]) = node_at fs0 (base @ [?gr])"
    and "node_at fs3 (base @ [?zip]) = node_at fs0 (base @ [?zip])"
    by simp_all
  with g0 z0 have g3: "path_exists fs3 (base @ [?gr]) \<longrightarrow> is_dir fs3 (base @ [?gr])"
    and z3: "\<not> is_dir fs3 (base @ [?zip])"
    by (simp_all add: is_dir_def path_exists_def)
  from make_github_folder_returns [OF d3 g3 z3 u3 p3 x3] obtain fs' where
    s4: "make_github_folder base (base @ [?u]) (base @ [?r]) (base @ [?d]) fs3
            = (Inr (base @ [?gr], base @ [?zip]), fs')"
    and d4: "is_dir fs' base"
    and k4: "\<forall>b q. b \<noteq> ?gr \<and> b \<noteq> ?zip \<longrightarrow> node_at fs' (base @ b # q) = node_at fs3 (base @ b # q)"
    by blast
  have run: "generate_artifacts lib base fs = (Inr (base @ [?gr], base @ [?zip]), fs')"
    unfolding generate_artifacts_def Let_def
    by (simp add: bind_def s0 s1' s2' s3 s4)
  from k4 u3 p3 x3 have f4: "node_at fs' (base @ [?u]) = Some (File (Png example_image))"
    "node_at fs' (base @ [?r]) = Some (File (Plot example_figure))"
    "node_at fs' (base @ [?d])
        = Some (File (Docx (create_docx_blocks (Png example_image) (Plot example_figure))))"
    by simp_all
  from make_github_folder_result [OF s4] obtain y1 y2 yd where
    "node_at fs' (base @ [?gr]) = Some (package_tree ?u y1 ?r y2 ?d yd)"
    and "node_at fs' (base @ [?zip]) = Some (File (Zip (named (walk_files []
                 (package_tree ?u y1 ?r y2 ?d yd)))))"
    by auto
  with f4 d4 have "ready fs' base"
    by (simp add: ready_def is_dir_def path_exists_def package_tree_def Let_def)
  with d4 have "valid_output_directory fs' base"
    by (simp add: valid_output_directory_def mkdir_parents_existing)
  with run f4(3) show ?thesis by blast
qed

section \<open>Runs of the examples\<close>

lemma working_libraries_work: "libraries_work working_libraries"
  by (simp add: libraries_work_def working_libraries_def ends_with_def example_figure_def)

lemma first_run:
  "generate_artifacts working_libraries [''out''] (Dir []) =
     (Inr ([''out'', ''github_repo''], [''out'', ''github_repo.zip'']), pipeline_fs)"
proof -
  have a: "make_uniform_image working_libraries p fs = write_file p (Png example_image) fs"
    if "ends_with ''.png'' (name p)" for p fs
    using that by (simp add: make_uniform_image_font working_libraries_def)
  have b: "packed_spheres_figure working_libraries 2 4 (PyInt 2) = Inr example_figure"
    by (rule example_figure_eq) (simp add: working_libraries_def)
  have c: "savefig working_libraries example_figure n = None" for n
    by (simp add: working_libraries_def example_figure_def)
  show ?thesis
    unfolding pipeline_fs_def generate_artifacts_def make_packed_spheres_image_def b
    by (simp add: a c ends_with_def create_docx_def read_image_def fs_eval)
qed

lemma second_run:
  "generate_artifacts working_libraries [''out''] pipeline_fs =
     (Inr ([''out'', ''github_repo''], [''out'', ''github_repo.zip'']), pipeline_fs)"
proof -
  have a: "make_uniform_image working_libraries p fs = write_file p (Png example_image) fs"
    if "ends_with ''.png'' (name p)" for p fs
    using that by (simp add: make_uniform_image_font working_libraries_def)
  have b: "packed_spheres_figure working_libraries 2 4 (PyInt 2) = Inr example_figure"
    by (rule example_figure_eq) (simp add: working_libraries_def)
  have c: "savefig working_libraries example_figure n = None" for n
    by (simp add: working_libraries_def example_figure_def)
  show ?thesis
    unfolding pipeline_fs_def generate_artifacts_def make_packed_spheres_image_def b
    by (simp add: a c ends_with_def create_docx_def read_image_def fs_eval)
qed

lemma compose_run:
  "create_docx [''out'', ''generated_assessment.docx''] [''out'', ''uniform_table.png'']
     [''out'', ''rect_package_topview_8.png''] pipeline_fs = (Inr (), pipeline_fs)"
  unfolding pipeline_fs_def
  by (simp add: create_docx_def read_image_def fs_eval)

lemma assemble_run:
  "make_github_folder [''out''] [''out'', ''uniform_table.png'']
     [''out'', ''rect_package_topview_8.png''] [''out'', ''generated_assessment.docx''] pipeline_fs
   = (Inr ([''out'', ''github_repo''], [''out'', ''github_repo.zip'']), pipeline_fs)"
  unfolding pipeline_fs_def
  by (simp add: fs_eval)

lemma pipeline_outputs:
  "document_at pipeline_fs [''out'', ''generated_assessment.docx'']
     = create_docx_blocks (Png example_image) (Plot example_figure)"
  "text_at pipeline_fs [''out'', ''github_repo'', ''QUESTIONS.md''] = questions_md_text"
  "text_at pipeline_fs [''out'', ''github_repo'', ''README.md''] = readme_text"
  by (simp_all add: pipeline_fs_def document_at_def text_at_def node_at_def)

section \<open>Lemmas on the publisher\<close>

lemma world_after_append:
  "world_after tool cwd (xs @ ys) w = world_after tool cwd ys (world_after tool cwd xs w)"
  by (induction xs arbitrary: w) auto

lemma completed_start: "completed tool cwd w [] (w, [])"
  by (simp add: completed_def)

lemma run_ends:
  assumes "completed tool cwd w cmds s" and "cmd \<noteq> [''git'', ''remote'']"
  shows "ends_as tool cwd w (cmds @ [cmd]) (run tool cwd cmd s)"
proof (cases "tool cmd cwd (fst s)")
  case (Pair out w')
  with assms show ?thesis
    by (cases out)
       (auto simp: ends_as_def completed_def stopped_def run_def subprocess_run_def
          world_after_append)
qed

lemma remove_origin_ends:
  assumes "completed tool cwd w cmds s"
  shows "ends_as tool cwd w (cmds @ [[''git'', ''remote'']]) (remove_origin tool cwd s)
       \<or> ends_as tool cwd w ((cmds @ [[''git'', ''remote'']]) @ [[''git'', ''remote'', ''remove'', ''origin'']])
            (remove_origin tool cwd s)"
proof (cases "tool [''git'', ''remote''] cwd (fst s)")
  case (Pair out w')
  show ?thesis
  proof (cases out)
    case NotStarted
    with Pair assms show ?thesis
      by (auto simp: ends_as_def completed_def stopped_def remove_origin_def subprocess_run_def
            world_after_append)
  next
    case (Exited rc)
    have probe: "completed tool cwd w (cmds @ [[''git'', ''remote'']])
                   (w', snd s @ [([''git'', ''remote''], Exited rc)])"
      using Pair Exited assms by (auto simp: completed_def world_after_append)
    show ?thesis
    proof (cases "rc = 0")
      case True
      then have "remove_origin tool cwd s =
          run tool cwd [''git'', ''remote'', ''remove'', ''origin'']
            (w', snd s @ [([''git'', ''remote''], Exited rc)])"
        using Pair Exited by (simp add: remove_origin_def subprocess_run_def)
      with run_ends [OF probe, of "[''git'', ''remote'', ''remove'', ''origin'']"]
      show ?thesis by simp
    next
      case False
      then have "remove_origin tool cwd s = (Inr (), (w', snd s @ [([''git'', ''remote''], Exited rc)]))"
        using Pair Exited by (simp add: remove_origin_def subprocess_run_def)
      with probe show ?thesis by (simp add: ends_as_def)
    qed
  qed
qed

lemma linear_bind:
  assumes "ends_as tool cwd w cmds m"
    and "prefix cmds plan1 \<or> prefix cmds plan2"
    and "\<And>u s. completed tool cwd w cmds s \<Longrightarrow> linear_run tool cwd w plan1 plan2 (f u s)"
  shows "linear_run tool cwd w plan1 plan2 (bind m f)"
proof -
  obtain res s where m: "m = (res, s)"
    by (cases m) auto
  show ?thesis
  proof (cases res)
    case (Inl e)
    with m assms(1,2) show ?thesis
      unfolding linear_run_def bind_def ends_as_def by auto
  next
    case (Inr u)
    with m assms(1) have "completed tool cwd w cmds s"
      by (simp add: ends_as_def)
    from assms(3) [OF this, of u] m Inr show ?thesis
      by (simp add: bind_def)
  qed
qed

lemma linear_last:
  assumes "ends_as tool cwd w cmds m" and "cmds = plan1 \<or> cmds = plan2"
  shows "linear_run tool cwd w plan1 plan2 m"
proof -
  obtain res s where m: "m = (res, s)"
    by (cases m) auto
  with assms show ?thesis
    unfolding linear_run_def by (cases res) auto
qed

lemma linear_run_step:
  assumes "completed tool cwd w cmds s" and "cmd \<noteq> [''git'', ''remote'']"
    and "prefix (cmds @ [cmd]) plan1 \<or> prefix (cmds @ [cmd]) plan2"
    and "\<And>u s'. completed tool cwd w (cmds @ [cmd]) s' \<Longrightarrow> linear_run tool cwd w plan1 plan2 (f u s')"
  shows "linear_run tool cwd w plan1 plan2 (bind (run tool cwd cmd s) f)"
  by (rule linear_bind [OF run_ends [OF assms(1,2)] assms(3,4)])

lemma linear_run_last:
  assumes "completed tool cwd w cmds s" and "cmd \<noteq> [''git'', ''remote'']"
    and "cmds @ [cmd] = plan1 \<or> cmds @ [cmd] = plan2"
  shows "linear_run tool cwd w plan1 plan2 (run tool cwd cmd s)"
  by (rule linear_last [OF run_ends [OF assms(1,2)] assms(3)])

lemma linear_remove_origin_step:
  assumes "completed tool cwd w cmds s"
    and "prefix (cmds @ [[''git'', ''remote'']]) plan1 \<or> prefix (cmds @ [[''git'', ''remote'']]) plan2"
    and "prefix ((cmds @ [[''git'', ''remote'']]) @ [[''git'', ''remote'', ''remove'', ''origin'']]) plan1
       \<or> prefix ((cmds @ [[''git'', ''remote'']]) @ [[''git'', ''remote'', ''remove'', ''origin'']]) plan2"
    and "\<And>u s'. completed tool cwd w (cmds @ [[''git'', ''remote'']]) s'
           \<Longrightarrow> linear_run tool cwd w plan1 plan2 (f u s')"
    and "\<And>u s'. completed tool cwd w
                ((cmds @ [[''git'', ''remote'']]) @ [[''git'', ''remote'', ''remove'', ''origin'']]) s'
           \<Longrightarrow> linear_run tool cwd w plan1 plan2 (f u s')"
  shows "linear_run tool cwd w plan1 plan2 (bind (remove_origin tool cwd s) f)"
  using remove_origin_ends [OF assms(1)]
proof
  assume "ends_as tool cwd w (cmds @ [[''git'', ''remote'']]) (remove_origin tool cwd s)"
  then show ?thesis
    by (rule linear_bind [OF _ assms(2,4)])
next
  assume "ends_as tool cwd w
            ((cmds @ [[''git'', ''remote'']]) @ [[''git'', ''remote'', ''remove'', ''origin'']])
            (remove_origin tool cwd s)"
  then show ?thesis
    by (rule linear_bind [OF _ assms(3,5)])
qed

lemma git_init_and_push_linear:
  "linear_run tool repo_dir w
     (publisher_steps (\<not> exists w (repo_dir @ [''.git''])) True remote_url branch)
     (publisher_steps (\<not> exists w (repo_dir @ [''.git''])) False remote_url branch)
     (git_init_and_push tool exists repo_dir remote_url branch (w, []))"
proof -
  let ?init = "if \<not> exists w (repo_dir @ [''.git'']) then [[''git'', ''init'']] else []"
  have first: "ends_as tool repo_dir w ?init
      (if \<not> exists (fst (w, [])) (repo_dir @ [''.git''])
       then run tool repo_dir [''git'', ''init''] (w, []) else (Inr (), (w, [])))"
    using run_ends [OF completed_start, of "[''git'', ''init'']" tool repo_dir w]
    by (simp add: ends_as_def completed_start)
  show ?thesis
    unfolding git_init_and_push_def
    apply (rule linear_bind [OF first])
     apply (simp add: publisher_steps_def)
    apply (erule linear_run_step, simp, simp add: publisher_steps_def)
    apply (erule linear_run_step, simp, simp add: publisher_steps_def)
    apply (erule linear_run_step, simp, simp add: publisher_steps_def)
    apply (erule linear_remove_origin_step)
       apply (simp add: publisher_steps_def)
      apply (simp add: publisher_steps_def)
     apply (erule linear_run_step, simp, simp add: publisher_steps_def)
     apply (erule linear_run_last, simp, simp add: publisher_steps_def)
    apply (erule linear_run_step, simp, simp add: publisher_steps_def)
    apply (erule linear_run_last, simp, simp add: publisher_steps_def)
    done
qed

lemma prefix_distinct: "prefix xs ys \<Longrightarrow> distinct ys \<Longrightarrow> distinct xs"
  by (auto simp: prefix_def)

lemma publisher_steps_distinct: "distinct (publisher_steps init remove remote_url branch)"
  by (simp add: publisher_steps_def)

section \<open>The option blocks and the two transcriptions\<close>

lemmas block_defs = option_block_ok_def option_block_def is_option_line_def option_label_def
  tag_of_def field_of_def starts_with_def

lemma document_blocks_ok:
  "length (question_records (docx_lines (create_docx_blocks pic1 pic2))) = 2"
  "list_all option_block_ok (question_records (docx_lines (create_docx_blocks pic1 pic2)))"
  unfolding docx_records by (simp_all add: block_defs)

lemma markdown_blocks_ok:
  "length (question_records (split_lines questions_md_text)) = 2"
  "list_all option_block_ok (question_records (split_lines questions_md_text))"
  unfolding md_lines_def [symmetric] md_records by (simp_all add: block_defs)

lemma document_mismatch:
  "marked_and_explained (question_records (docx_lines (create_docx_blocks pic1 pic2)) ! 1)"
  unfolding docx_records
  by (simp add: marked_and_explained_def block_defs is_correct_def explanation_of_def ends_with_def)

lemma markdown_mismatch:
  "marked_and_explained (question_records (split_lines questions_md_text) ! 1)"
  unfolding md_lines_def [symmetric] md_records
  by (simp add: marked_and_explained_def block_defs is_correct_def explanation_of_def ends_with_def)



lemma markdown_tags:
  "map (map tag_of) (question_records (split_lines questions_md_text)) =
       replicate 2 [''@question'', ''@instruction'', ''@difficulty'', ''@Order'',
         ''@option'', ''@option'', ''@@option'', ''@option'', ''@option'',
         ''@explanation'', [], ''@subject'', ''@unit'', ''@topic'', ''@plusmarks'']"
  unfolding md_lines_def [symmetric] md_records
  by (simp add: tag_of_def starts_with_def numeral_2_eq_2)

lemma markdown_is_stripped_document:
  "question_records (split_lines questions_md_text)
     = question_records (map without_leading_line_feed (paragraphs (create_docx_blocks pic1 pic2)))"
  unfolding md_lines_def [symmetric] md_records stripped_records ..

lemma markdown_question_line:
  "tag_of (split_lines questions_md_text ! 4) = ''@question''"
  "split_lines questions_md_text ! 4 \<notin> set (paragraphs (create_docx_blocks pic1 pic2))"
  "newline @ split_lines questions_md_text ! 4 \<in> set (paragraphs (create_docx_blocks pic1 pic2))"
  unfolding md_lines_def [symmetric] md_lines_eq
  by (simp_all add: tag_of_def starts_with_def create_docx_blocks_def)




text \<open>
  Claim C3.  In the second question, in the document that \<^verbatim>\<open>create_docx\<close> has
  written and in the questions file that \<^verbatim>\<open>make_github_folder\<close> has written alike,
  the option with the doubled marker is (C) with the text \<open>$4 \times 12 \times 18$\<close>,
  the explanation ends by deriving the dimensions \<open>$4 \times 8 \times 16$\<close>, and that
  is the text of option (A), which carries the single marker.  Nothing in the program
  compares the marked option with the explanation: the composer returns whenever the two
  images can be read and the document can be written, and the assembler returns whenever
  the output directory holds the three files, the package directory is free or a
  directory and the archive is no directory; both write the mismatch.
\<close>

theorem question2_marked_option_differs_from_explanation:
  "(create_docx p img1 img2 fs = (Inr u, fs') \<longrightarrow>
      marked_and_explained (question_records (docx_lines (document_at fs' p)) ! 1))
   \<and> (make_github_folder base i1 i2 d gs = (Inr (rd, zp), gs') \<and> name d \<noteq> ''QUESTIONS.md'' \<longrightarrow>
      marked_and_explained
        (question_records (split_lines (text_at gs' (rd @ [''QUESTIONS.md'']))) ! 1))
   \<and> (can_compose hs dir nd j1 j2 \<longrightarrow>
        (\<exists>hs'. create_docx (dir @ [nd]) j1 j2 hs = (Inr (), hs')
           \<and> marked_and_explained (question_records (docx_lines (document_at hs' (dir @ [nd]))) ! 1)))
   \<and> (can_assemble ks out n1 n2 n3 \<and> n3 \<noteq> ''QUESTIONS.md'' \<longrightarrow>
        (\<exists>ks'. make_github_folder out (out @ [n1]) (out @ [n2]) (out @ [n3]) ks
              = (Inr (out @ [''github_repo''], out @ [''github_repo.zip'']), ks')
           \<and> marked_and_explained (question_records
                (split_lines (text_at ks' (out @ [''github_repo'', ''QUESTIONS.md'']))) ! 1)))"
proof (intro conjI impI)
  assume "create_docx p img1 img2 fs = (Inr u, fs')"
  from document_at_create_docx [OF this] obtain pic1 pic2 where
    "document_at fs' p = create_docx_blocks pic1 pic2" by blast
  then show "marked_and_explained (question_records (docx_lines (document_at fs' p)) ! 1)"
    by (simp only: document_mismatch)
next
  assume "make_github_folder base i1 i2 d gs = (Inr (rd, zp), gs') \<and> name d \<noteq> ''QUESTIONS.md''"
  then have "text_at gs' (rd @ [''QUESTIONS.md'']) = questions_md_text"
    using make_github_folder_texts(2) by blast
  then show "marked_and_explained
        (question_records (split_lines (text_at gs' (rd @ [''QUESTIONS.md'']))) ! 1)"
    by (simp only: markdown_mismatch)
next
  assume "can_compose hs dir nd j1 j2"
  then have "is_image hs j1" "is_image hs j2" "is_dir hs dir" "\<not> is_dir hs (dir @ [nd])"
    by (simp_all add: can_compose_def)
  from create_docx_returns [OF this] obtain hs' pic1 pic2 where
    r: "create_docx (dir @ [nd]) j1 j2 hs = (Inr (), hs')"
    and "node_at hs' (dir @ [nd]) = Some (File (Docx (create_docx_blocks pic1 pic2)))"
    by blast
  then have "document_at hs' (dir @ [nd]) = create_docx_blocks pic1 pic2"
    by (simp add: document_at_def)
  then have "marked_and_explained (question_records (docx_lines (document_at hs' (dir @ [nd]))) ! 1)"
    by (simp only: document_mismatch)
  with r show "\<exists>hs'. create_docx (dir @ [nd]) j1 j2 hs = (Inr (), hs')
           \<and> marked_and_explained (question_records (docx_lines (document_at hs' (dir @ [nd]))) ! 1)"
    by blast
next
  assume a: "can_assemble ks out n1 n2 n3 \<and> n3 \<noteq> ''QUESTIONS.md''"
  then obtain x1 x2 x3 where "is_dir ks out"
    "path_exists ks (out @ [''github_repo'']) \<longrightarrow> is_dir ks (out @ [''github_repo''])"
    "\<not> is_dir ks (out @ [''github_repo.zip''])"
    "node_at ks (out @ [n1]) = Some (File x1)" "node_at ks (out @ [n2]) = Some (File x2)"
    "node_at ks (out @ [n3]) = Some (File x3)"
    by (auto simp: can_assemble_def is_file_def split: option.splits node.splits)
  from make_github_folder_returns [OF this] obtain ks' where
    r: "make_github_folder out (out @ [n1]) (out @ [n2]) (out @ [n3]) ks
              = (Inr (out @ [''github_repo''], out @ [''github_repo.zip'']), ks')"
    by blast
  from a have "name (out @ [n3]) \<noteq> ''QUESTIONS.md''" by simp
  from make_github_folder_texts(2) [OF r this]
  have "text_at ks' (out @ [''github_repo'', ''QUESTIONS.md'']) = questions_md_text"
    by simp
  then have "marked_and_explained (question_records
                (split_lines (text_at ks' (out @ [''github_repo'', ''QUESTIONS.md'']))) ! 1)"
    by (simp only: markdown_mismatch)
  with r show "\<exists>ks'. make_github_folder out (out @ [n1]) (out @ [n2]) (out @ [n3]) ks
              = (Inr (out @ [''github_repo''], out @ [''github_repo.zip'']), ks')
           \<and> marked_and_explained (question_records
                (split_lines (text_at ks' (out @ [''github_repo'', ''QUESTIONS.md'']))) ! 1)"
    by blast
qed

theorem question2_marked_option_differs_from_explanation_witness:
  "create_docx [''out'', ''generated_assessment.docx''] [''out'', ''uniform_table.png'']
     [''out'', ''rect_package_topview_8.png''] pipeline_fs = (Inr (), pipeline_fs)
   \<and> make_github_folder [''out''] [''out'', ''table.png''] [''out'', ''balls.png''] [''out'', ''doc.docx'']
     example_fs = (Inr ([''out'', ''github_repo''], [''out'', ''github_repo.zip'']), example_fs')
   \<and> name [''out'', ''doc.docx''] \<noteq> ''QUESTIONS.md''
   \<and> can_compose pipeline_fs [''out''] ''generated_assessment.docx''
        [''out'', ''uniform_table.png''] [''out'', ''rect_package_topview_8.png'']
   \<and> can_assemble example_fs [''out''] ''table.png'' ''balls.png'' ''doc.docx''
   \<and> ''doc.docx'' \<noteq> ''QUESTIONS.md''
   \<and> marked_and_explained (question_records (docx_lines
        (document_at pipeline_fs [''out'', ''generated_assessment.docx''])) ! 1)
   \<and> marked_and_explained (question_records (split_lines
        (text_at example_fs' ([''out'', ''github_repo''] @ [''QUESTIONS.md'']))) ! 1)
   \<and> (\<exists>hs'. create_docx ([''out''] @ [''generated_assessment.docx''])
          [''out'', ''uniform_table.png''] [''out'', ''rect_package_topview_8.png''] pipeline_fs
            = (Inr (), hs'))
   \<and> (\<exists>ks'. make_github_folder [''out''] ([''out''] @ [''table.png'']) ([''out''] @ [''balls.png''])
          ([''out''] @ [''doc.docx'']) example_fs
            = (Inr ([''out''] @ [''github_repo''], [''out''] @ [''github_repo.zip'']), ks'))"
proof -
  have n: "name [''out'', ''doc.docx''] \<noteq> ''QUESTIONS.md''" "''doc.docx'' \<noteq> ''QUESTIONS.md''"
    by simp_all
  have c: "can_compose pipeline_fs [''out''] ''generated_assessment.docx''
        [''out'', ''uniform_table.png''] [''out'', ''rect_package_topview_8.png'']"
    by (simp add: can_compose_def is_image_def is_dir_def node_at_def pipeline_fs_def)
  have a: "can_assemble example_fs [''out''] ''table.png'' ''balls.png'' ''doc.docx''"
    by (simp add: can_assemble_def is_file_def is_dir_def path_exists_def node_at_def example_fs_def)
  from question2_marked_option_differs_from_explanation
     [of "[''out'', ''generated_assessment.docx'']"
      "[''out'', ''uniform_table.png'']" "[''out'', ''rect_package_topview_8.png'']" pipeline_fs
      "()" pipeline_fs "[''out'']" "[''out'', ''table.png'']" "[''out'', ''balls.png'']"
      "[''out'', ''doc.docx'']" example_fs "[''out'', ''github_repo'']"
      "[''out'', ''github_repo.zip'']" example_fs'
      pipeline_fs "[''out'']" "''generated_assessment.docx''"
      "[''out'', ''uniform_table.png'']" "[''out'', ''rect_package_topview_8.png'']"
      example_fs "[''out'']" "''table.png''" "''balls.png''" "''doc.docx''"]
    compose_run example_run n c a
  show ?thesis by blast
qed

section \<open>The package directory and the archive\<close>

text \<open>
  Claim C6.  When \<open>make_github_folder\<close> returns, the archive holds one entry for every
  regular file below the package directory and no other entry: the entry has the content
  of the file and is named by the path of the file relative to the package directory.  No
  entry name starts with the separator or with the name of the package directory followed
  by the separator.  (A path component holds no separator; that is assumed of the name of
  the document, the one name that lies directly in the package directory and is not fixed
  by the program.)
\<close>

theorem archive_entries_are_relative_files:
  assumes run: "make_github_folder base img1 img2 docx fs = (Inr (rd, zp), fs')"
    and sep: "CHR ''/'' \<notin> set (name docx)"
  shows "\<exists>zf. node_at fs' zp = Some (File (Zip zf))
           \<and> set zf = {(path_str p, x) | p x. node_at fs' (rd @ p) = Some (File x)}
           \<and> list_all (\<lambda>e. \<not> starts_with ''/'' (fst e) \<and> \<not> starts_with ''github_repo/'' (fst e)) zf"
proof -
  from make_github_folder_result [OF run] obtain x1 x2 xd where
    t: "node_at fs' rd = Some (package_tree (name img1) x1 (name img2) x2 (name docx) xd)"
    and z: "node_at fs' zp = Some (File (Zip (named (walk_files []
                 (package_tree (name img1) x1 (name img2) x2 (name docx) xd)))))"
    by auto
  let ?t = "package_tree (name img1) x1 (name img2) x2 (name docx) xd"
  obtain es where es: "?t = Dir es"
    using package_tree_Dir by blast
  have f: "{(p, x). node_at fs' (rd @ p) = Some (File x)} = set (walk_files [] ?t)"
    using files_of_tree [of fs' rd es] t wf_package_tree [of "name img1" x1 "name img2" x2 "name docx" xd] es
    by simp
  have a: "set (named (walk_files [] ?t)) = {(path_str p, x) | p x. node_at fs' (rd @ p) = Some (File x)}"
    unfolding set_named f [symmetric] by simp
  have "\<not> starts_with ''/'' (name docx)" and "\<not> starts_with ''github_repo/'' (name docx)"
    using sep starts_with_subset by fastforce+
  moreover have "\<not> starts_with ''/'' (''images/'' @ s) \<and> \<not> starts_with ''github_repo/'' (''images/'' @ s)" for s
    by (simp add: starts_with_def)
  moreover have "\<not> starts_with ''/'' ''README.md'' \<and> \<not> starts_with ''github_repo/'' ''README.md''
      \<and> \<not> starts_with ''/'' ''QUESTIONS.md'' \<and> \<not> starts_with ''github_repo/'' ''QUESTIONS.md''"
    by (simp add: starts_with_def)
  ultimately have b: "list_all (\<lambda>e. \<not> starts_with ''/'' (fst e) \<and> \<not> starts_with ''github_repo/'' (fst e))
      (named (walk_files [] ?t))"
    by (auto simp: package_tree_def Let_def named_def split: if_splits)
  from z a b show ?thesis by blast
qed

theorem archive_entries_are_relative_files_witness:
  "make_github_folder [''out''] [''out'', ''table.png''] [''out'', ''balls.png''] [''out'', ''doc.docx'']
     example_fs = (Inr ([''out'', ''github_repo''], [''out'', ''github_repo.zip'']), example_fs')
   \<and> CHR ''/'' \<notin> set (name [''out'', ''doc.docx''])
   \<and> (\<exists>zf. node_at example_fs' [''out'', ''github_repo.zip''] = Some (File (Zip zf))
           \<and> set zf = {(path_str p, x) | p x.
                 node_at example_fs' ([''out'', ''github_repo''] @ p) = Some (File x)}
           \<and> list_all (\<lambda>e. \<not> starts_with ''/'' (fst e) \<and> \<not> starts_with ''github_repo/'' (fst e)) zf)"
proof -
  have sep: "CHR ''/'' \<notin> set (name [''out'', ''doc.docx''])"
    by simp
  from archive_entries_are_relative_files [OF example_run sep] example_run sep
  show ?thesis by blast
qed

text \<open>
  Claim C7.  When \<open>make_github_folder\<close> returns, whatever the filesystem held before,
  the paths that exist below the package directory are the directory itself, its
  directory \<open>images\<close>, the two image copies in it, the README, the questions file and the
  copy of the document, and all but the two directories are regular files.  Nothing else
  is there, so no file of an earlier package directory has survived.  The README and the
  questions file hold the fixed texts, unless the document has the name of one of them
  and its copy has replaced it.  (A document named
  \<open>images\<close> is copied into the directory of that name, as \<^verbatim>\<open>shutil.copy\<close> does
  with a destination that is a directory.)  The archive is new as well: its entries are
  those files.
\<close>

theorem package_directory_is_rebuilt:
  assumes "make_github_folder base img1 img2 docx fs = (Inr (rd, zp), fs')"
  shows "rd = base @ [''github_repo''] \<and> zp = base @ [''github_repo.zip'']
       \<and> {p. path_exists fs' (rd @ p)} =
           {[], [''images''], [''images'', name img1], [''images'', name img2],
            [''README.md''], [''QUESTIONS.md''],
            (if name docx = ''images'' then [''images'', ''images''] else [name docx])}
       \<and> {p. \<exists>x. node_at fs' (rd @ p) = Some (File x)} =
           {[''images'', name img1], [''images'', name img2],
            [''README.md''], [''QUESTIONS.md''],
            (if name docx = ''images'' then [''images'', ''images''] else [name docx])}
       \<and> (name docx \<noteq> ''README.md'' \<longrightarrow>
            node_at fs' (rd @ [''README.md'']) = Some (File (Text readme_text)))
       \<and> (name docx \<noteq> ''QUESTIONS.md'' \<longrightarrow>
            node_at fs' (rd @ [''QUESTIONS.md'']) = Some (File (Text questions_md_text)))
       \<and> (\<exists>zf. node_at fs' zp = Some (File (Zip zf))
             \<and> fst ` set zf = path_str `
                 {[''images'', name img1], [''images'', name img2],
                  [''README.md''], [''QUESTIONS.md''],
                  (if name docx = ''images'' then [''images'', ''images''] else [name docx])})"
proof -
  from make_github_folder_result [OF assms] obtain x1 x2 xd where
    rd: "rd = base @ [''github_repo'']" and zp: "zp = base @ [''github_repo.zip'']"
    and t: "node_at fs' rd = Some (package_tree (name img1) x1 (name img2) x2 (name docx) xd)"
    and z: "node_at fs' zp = Some (File (Zip (named (walk_files []
                 (package_tree (name img1) x1 (name img2) x2 (name docx) xd)))))"
    by auto
  let ?t = "package_tree (name img1) x1 (name img2) x2 (name docx) xd"
  let ?files = "{[''images'', name img1], [''images'', name img2],
            [''README.md''], [''QUESTIONS.md''],
            (if name docx = ''images'' then [''images'', ''images''] else [name docx])}"
  have a: "{p. path_exists fs' (rd @ p)} = set (tree_paths [] ?t)"
    by (rule paths_of_tree [OF t wf_package_tree])
  obtain es where es: "?t = Dir es"
    using package_tree_Dir by blast
  have "{(p, x). node_at fs' (rd @ p) = Some (File x)} = set (walk_files [] ?t)"
    using files_of_tree [of fs' rd es] t wf_package_tree [of "name img1" x1 "name img2" x2 "name docx" xd] es
    by simp
  then have "fst ` {(p, x). node_at fs' (rd @ p) = Some (File x)} = fst ` set (walk_files [] ?t)"
    by simp
  moreover have "fst ` {(p, x). node_at fs' (rd @ p) = Some (File x)} = {p. \<exists>x. node_at fs' (rd @ p) = Some (File x)}"
    by force
  ultimately have b: "{p. \<exists>x. node_at fs' (rd @ p) = Some (File x)} = fst ` set (walk_files [] ?t)"
    by simp
  have a': "set (tree_paths [] ?t) = insert [] (insert [''images''] ?files)"
    by (auto simp: package_tree_def Let_def)
  have b': "fst ` set (walk_files [] ?t) = ?files"
    by (auto simp: package_tree_def Let_def)
  have "fst ` set (named (walk_files [] ?t)) = path_str ` fst ` set (walk_files [] ?t)"
    by (simp add: named_def image_image)
  with b' have c: "fst ` set (named (walk_files [] ?t)) = path_str ` ?files"
    by simp
  have d: "name docx \<noteq> ''README.md'' \<longrightarrow>
            node_at fs' (rd @ [''README.md'']) = Some (File (Text readme_text))"
    and e: "name docx \<noteq> ''QUESTIONS.md'' \<longrightarrow>
            node_at fs' (rd @ [''QUESTIONS.md'']) = Some (File (Text questions_md_text))"
    using t by (auto simp: node_at_append package_tree_def Let_def)
  from rd zp a b a' b' c d e z show ?thesis by simp
qed

theorem package_directory_is_rebuilt_witness:
  "make_github_folder [''out''] [''out'', ''table.png''] [''out'', ''balls.png''] [''out'', ''doc.docx'']
     example_fs = (Inr ([''out'', ''github_repo''], [''out'', ''github_repo.zip'']), example_fs')
   \<and> path_exists example_fs [''out'', ''github_repo'', ''stale.txt'']
   \<and> {p. path_exists example_fs' ([''out'', ''github_repo''] @ p)} =
           {[], [''images''], [''images'', ''table.png''], [''images'', ''balls.png''],
            [''README.md''], [''QUESTIONS.md''], [''doc.docx'']}"
proof -
  have "path_exists example_fs [''out'', ''github_repo'', ''stale.txt'']"
    by (simp add: example_fs_def path_exists_def node_at_def)
  with package_directory_is_rebuilt [OF example_run] example_run show ?thesis
    by simp
qed

text \<open>
  The package directory that the pipeline leaves has no \<^verbatim>\<open>.git\<close> in it: the publisher
  always starts from a directory that is no repository yet.
\<close>

lemma generate_artifacts_no_git_dir:
  assumes "generate_artifacts lib base fs = (Inr (rd, zp), fs')"
  shows "\<not> path_exists fs' (rd @ [''.git''])"
proof -
  from generate_artifacts_result [OF assms] obtain x1 x2 xd where
    "node_at fs' rd = Some (package_tree ''uniform_table.png'' x1
              ''rect_package_topview_8.png'' x2 ''generated_assessment.docx'' xd)"
    by auto
  then show ?thesis
    by (simp add: path_exists_append package_tree_def Let_def)
qed

text \<open>
  Claim C9.  Two runs of the pipeline on the same output directory, from any two
  filesystems (the second may be what the first run left) and with any libraries, that
  both return: the questions file holds the same text after both, the README holds the
  same text after both, and the two archives have the same set of entry names, the five
  relative paths of the package.  And with libraries that work, a run on a valid output
  directory (one that exists or can be made, in which the paths of the three artifacts
  and of the archive hold no directory and the path of the package directory holds
  nothing but a directory) returns and leaves a valid output directory, so that the next
  run returns as well.
\<close>

theorem two_runs_agree:
  "(generate_artifacts lib1 base fs1 = (Inr (rd1, zp1), fs1')
      \<and> generate_artifacts lib2 base fs2 = (Inr (rd2, zp2), fs2') \<longrightarrow>
        node_at fs1' (rd1 @ [''QUESTIONS.md'']) = Some (File (Text questions_md_text))
      \<and> node_at fs2' (rd2 @ [''QUESTIONS.md'']) = Some (File (Text questions_md_text))
      \<and> node_at fs1' (rd1 @ [''README.md'']) = Some (File (Text readme_text))
      \<and> node_at fs2' (rd2 @ [''README.md'']) = Some (File (Text readme_text))
      \<and> (\<exists>zf1 zf2. node_at fs1' zp1 = Some (File (Zip zf1))
            \<and> node_at fs2' zp2 = Some (File (Zip zf2))
            \<and> fst ` set zf1 = fst ` set zf2
            \<and> fst ` set zf1 = {''README.md'', ''QUESTIONS.md'', ''generated_assessment.docx'',
                 ''images/uniform_table.png'', ''images/rect_package_topview_8.png''}))
   \<and> (libraries_work lib \<and> valid_output_directory fs base \<longrightarrow>
        (\<exists>fs' fs''.
            generate_artifacts lib base fs
              = (Inr (base @ [''github_repo''], base @ [''github_repo.zip'']), fs')
          \<and> generate_artifacts lib base fs'
              = (Inr (base @ [''github_repo''], base @ [''github_repo.zip'']), fs'')))"
proof (intro conjI impI)
  assume runs: "generate_artifacts lib1 base fs1 = (Inr (rd1, zp1), fs1')
      \<and> generate_artifacts lib2 base fs2 = (Inr (rd2, zp2), fs2')"
  from generate_artifacts_result [of lib1 base fs1 rd1 zp1 fs1'] runs obtain x1 x2 xd where
    a: "node_at fs1' rd1 = Some (package_tree ''uniform_table.png'' x1
              ''rect_package_topview_8.png'' x2 ''generated_assessment.docx'' xd)"
       "node_at fs1' zp1 = Some (File (Zip
             [(''README.md'', Text readme_text),
              (''QUESTIONS.md'', Text questions_md_text),
              (''generated_assessment.docx'', xd),
              (''images/uniform_table.png'', x1),
              (''images/rect_package_topview_8.png'', x2)]))"
    by auto
  from generate_artifacts_result [of lib2 base fs2 rd2 zp2 fs2'] runs obtain y1 y2 yd where
    b: "node_at fs2' rd2 = Some (package_tree ''uniform_table.png'' y1
              ''rect_package_topview_8.png'' y2 ''generated_assessment.docx'' yd)"
       "node_at fs2' zp2 = Some (File (Zip
             [(''README.md'', Text readme_text),
              (''QUESTIONS.md'', Text questions_md_text),
              (''generated_assessment.docx'', yd),
              (''images/uniform_table.png'', y1),
              (''images/rect_package_topview_8.png'', y2)]))"
    by auto
  have t: "lookup [''QUESTIONS.md''] (Some (package_tree ''uniform_table.png'' x
              ''rect_package_topview_8.png'' y ''generated_assessment.docx'' z))
        = Some (File (Text questions_md_text))"
    "lookup [''README.md''] (Some (package_tree ''uniform_table.png'' x
              ''rect_package_topview_8.png'' y ''generated_assessment.docx'' z))
        = Some (File (Text readme_text))" for x y z
    by (simp_all add: package_tree_def Let_def)
  from a(1) b(1) t show "node_at fs1' (rd1 @ [''QUESTIONS.md'']) = Some (File (Text questions_md_text))"
    and "node_at fs2' (rd2 @ [''QUESTIONS.md'']) = Some (File (Text questions_md_text))"
    and "node_at fs1' (rd1 @ [''README.md'']) = Some (File (Text readme_text))"
    and "node_at fs2' (rd2 @ [''README.md'']) = Some (File (Text readme_text))"
    by (simp_all add: node_at_append)
  from a(2) b(2) show "\<exists>zf1 zf2. node_at fs1' zp1 = Some (File (Zip zf1))
            \<and> node_at fs2' zp2 = Some (File (Zip zf2))
            \<and> fst ` set zf1 = fst ` set zf2
            \<and> fst ` set zf1 = {''README.md'', ''QUESTIONS.md'', ''generated_assessment.docx'',
                 ''images/uniform_table.png'', ''images/rect_package_topview_8.png''}"
    by simp
next
  assume "libraries_work lib \<and> valid_output_directory fs base"
  then have l: "libraries_work lib" and v: "valid_output_directory fs base"
    by simp_all
  from generate_artifacts_returns [OF l v] obtain fs' where
    r1: "generate_artifacts lib base fs
            = (Inr (base @ [''github_repo''], base @ [''github_repo.zip'']), fs')"
    and v': "valid_output_directory fs' base"
    by blast
  from generate_artifacts_returns [OF l v'] obtain fs'' where
    "generate_artifacts lib base fs'
            = (Inr (base @ [''github_repo''], base @ [''github_repo.zip'']), fs'')"
    by blast
  with r1 show "\<exists>fs' fs''.
            generate_artifacts lib base fs
              = (Inr (base @ [''github_repo''], base @ [''github_repo.zip'']), fs')
          \<and> generate_artifacts lib base fs'
              = (Inr (base @ [''github_repo''], base @ [''github_repo.zip'']), fs'')"
    by blast
qed

theorem two_runs_agree_witness:
  "generate_artifacts working_libraries [''out''] (Dir []) =
     (Inr ([''out'', ''github_repo''], [''out'', ''github_repo.zip'']), pipeline_fs)
   \<and> generate_artifacts working_libraries [''out''] pipeline_fs =
     (Inr ([''out'', ''github_repo''], [''out'', ''github_repo.zip'']), pipeline_fs)
   \<and> libraries_work working_libraries
   \<and> valid_output_directory (Dir []) [''out'']
   \<and> node_at pipeline_fs ([''out'', ''github_repo''] @ [''QUESTIONS.md''])
       = Some (File (Text questions_md_text))
   \<and> node_at pipeline_fs ([''out'', ''github_repo''] @ [''README.md''])
       = Some (File (Text readme_text))
   \<and> (\<exists>zf. node_at pipeline_fs [''out'', ''github_repo.zip''] = Some (File (Zip zf))
         \<and> fst ` set zf = {''README.md'', ''QUESTIONS.md'', ''generated_assessment.docx'',
                 ''images/uniform_table.png'', ''images/rect_package_topview_8.png''})
   \<and> (\<exists>fs' fs''.
            generate_artifacts working_libraries [''out''] (Dir [])
              = (Inr ([''out''] @ [''github_repo''], [''out''] @ [''github_repo.zip'']), fs')
          \<and> generate_artifacts working_libraries [''out''] fs'
              = (Inr ([''out''] @ [''github_repo''], [''out''] @ [''github_repo.zip'']), fs''))"
proof -
  have v: "valid_output_directory (Dir []) [''out'']"
    by (simp add: valid_output_directory_def ready_def mkdir_parents_def is_dir_def
          path_exists_def node_at_def)
  from two_runs_agree [of working_libraries "[''out'']" "Dir []" "[''out'', ''github_repo'']"
      "[''out'', ''github_repo.zip'']" pipeline_fs working_libraries pipeline_fs
      "[''out'', ''github_repo'']" "[''out'', ''github_repo.zip'']" pipeline_fs
      working_libraries "Dir []"]
    first_run second_run working_libraries_work v
  show ?thesis by blast
qed

section \<open>Image Renderer A without a font\<close>

text \<open>
  Claim C10 says that a failure to load the font is caught and never reaches the caller.
  The \<^verbatim>\<open>except\<close> clause does catch it and goes on with the font \<^verbatim>\<open>None\<close>; but
  the first \<^verbatim>\<open>draw.text\<close> then has no font, Pillow loads the default font itself, the
  loading fails again, outside the \<^verbatim>\<open>try\<close>, and the exception reaches the caller.
  No image is written, and the pipeline ends there, with nothing but the output directory
  made.  With the font, the same call writes the image.
\<close>

theorem font_failure_is_surfaced:
  "make_uniform_image libraries_without_font [''out'', ''uniform_table.png''] (Dir [(''out'', Dir [])])
     = (Inl OSError, Dir [(''out'', Dir [])])
   \<and> generate_artifacts libraries_without_font [''out''] (Dir [])
     = (Inl OSError, Dir [(''out'', Dir [])])
   \<and> make_uniform_image working_libraries [''out'', ''uniform_table.png''] (Dir [(''out'', Dir [])])
     = (Inr (), Dir [(''out'', Dir [(''uniform_table.png'', File (Png example_image))])])"
proof -
  have l: "load_default libraries_without_font = Inl OSError"
    by (simp add: libraries_without_font_def)
  have "make_uniform_image working_libraries [''out'', ''uniform_table.png''] (Dir [(''out'', Dir [])])
     = (Inr (), Dir [(''out'', Dir [(''uniform_table.png'', File (Png example_image))])])"
    by (simp add: make_uniform_image_font [of _ DefaultFont] working_libraries_def ends_with_def fs_eval)
  moreover have "generate_artifacts libraries_without_font [''out''] (Dir [])
     = (Inl OSError, Dir [(''out'', Dir [])])"
    by (simp add: generate_artifacts_def make_uniform_image_no_font [OF l] fs_eval)
  ultimately show ?thesis
    by (simp add: make_uniform_image_no_font [OF l])
qed

section \<open>Image Renderer B: the grid and the canvas\<close>




section \<open>The publisher\<close>

text \<open>
  Claim C8.  For every tool in the place of git and every world: the commands that a
  publishing run has started are, in this order, an initial part of \<^verbatim>\<open>git init\<close>
  (only when the directory has no \<^verbatim>\<open>.git\<close>), checkout of the branch, add, commit,
  the listing of the remotes, the removal of origin (only when the listing exited with
  status 0), the addition of origin, push.  No command was started twice.  No command
  but the last has failed.  When the run raises, the last command has failed, nothing was
  started after it, and the exception is the one of that failure, with the command and
  its exit status; when the run returns, all commands of the list were started and none
  has failed.  The world at the end is what exactly these commands made of it, one after
  the other: nothing undoes a step that was completed.
\<close>

theorem publisher_is_linear:
  assumes "git_init_and_push tool exists repo_dir remote_url branch (w, []) = (res, w', ps)"
  shows "(prefix (map fst ps) (publisher_steps (\<not> exists w (repo_dir @ [''.git''])) True remote_url branch)
          \<or> prefix (map fst ps) (publisher_steps (\<not> exists w (repo_dir @ [''.git''])) False remote_url branch))
      \<and> distinct (map fst ps)
      \<and> list_all (\<lambda>p. \<not> failed p) (butlast ps)
      \<and> w' = world_after tool repo_dir (map fst ps) w
      \<and> (case res of
            Inl e \<Rightarrow> ps \<noteq> [] \<and> failed (last ps) \<and> e = surfaced (last ps)
          | Inr u \<Rightarrow> list_all (\<lambda>p. \<not> failed p) ps
                \<and> (map fst ps = publisher_steps (\<not> exists w (repo_dir @ [''.git''])) True remote_url branch
                  \<or> map fst ps = publisher_steps (\<not> exists w (repo_dir @ [''.git''])) False remote_url branch))"
proof -
  let ?p1 = "publisher_steps (\<not> exists w (repo_dir @ [''.git''])) True remote_url branch"
  let ?p2 = "publisher_steps (\<not> exists w (repo_dir @ [''.git''])) False remote_url branch"
  from git_init_and_push_linear [of tool repo_dir w exists remote_url branch] assms
  obtain cmds where e: "ends_as tool repo_dir w cmds (res, w', ps)"
    and p: "prefix cmds ?p1 \<or> prefix cmds ?p2"
    and f: "case res of Inr u \<Rightarrow> cmds = ?p1 \<or> cmds = ?p2 | Inl e \<Rightarrow> True"
    unfolding linear_run_def by auto
  have m: "map fst ps = cmds"
    using e by (cases res) (auto simp: ends_as_def completed_def stopped_def)
  have d: "distinct cmds"
    using p prefix_distinct publisher_steps_distinct by blast
  have b: "list_all (\<lambda>p. \<not> failed p) (butlast ps)"
    using e by (cases res) (auto simp: ends_as_def completed_def stopped_def list_all_iff dest: in_set_butlastD)
  have w: "w' = world_after tool repo_dir (map fst ps) w"
    using e by (cases res) (auto simp: ends_as_def completed_def stopped_def)
  show ?thesis
  proof (cases res)
    case (Inl err)
    with e have "ps \<noteq> [] \<and> failed (last ps) \<and> err = surfaced (last ps)"
      by (simp add: ends_as_def stopped_def)
    with Inl p d b w m show ?thesis by simp
  next
    case (Inr u)
    with e have "list_all (\<lambda>p. \<not> failed p) ps"
      by (simp add: ends_as_def completed_def)
    with Inr p d b w m f show ?thesis by simp
  qed
qed

lemmas publisher_eval = git_init_and_push_def bind_def remove_origin_def run_def
  subprocess_run_def git_def git_dir_exists_def

lemma offline_run:
  "git_init_and_push git git_dir_exists [''out'', ''github_repo''] ''https://example.org/new.git'' ''main''
     (offline_repository, []) =
   (Inl (CalledProcessError [''git'', ''push'', ''-u'', ''origin'', ''main''] 128),
    \<lparr>initialized = True, branch_name = ''main'', staged = False, commits = 4,
      remotes = [(''origin'', ''https://example.org/new.git'')], reachable = [], pushed = []\<rparr>,
    [([''git'', ''checkout'', ''-B'', ''main''], Exited 0),
     ([''git'', ''add'', ''.''], Exited 0),
     ([''git'', ''commit'', ''-m'', ''Add generated assessment questions''], Exited 0),
     ([''git'', ''remote''], Exited 0),
     ([''git'', ''remote'', ''remove'', ''origin''], Exited 0),
     ([''git'', ''remote'', ''add'', ''origin'', ''https://example.org/new.git''], Exited 0),
     ([''git'', ''push'', ''-u'', ''origin'', ''main''], Exited 128)])"
  by (simp add: publisher_eval offline_repository_def)

text \<open>
  A run in a repository whose new remote cannot be reached: the push fails, its exception
  reaches the caller, and the commit made before it is still there (four commits after
  three).
\<close>

theorem publisher_is_linear_witness:
  "git_init_and_push git git_dir_exists [''out'', ''github_repo''] ''https://example.org/new.git'' ''main''
     (offline_repository, []) =
   (Inl (CalledProcessError [''git'', ''push'', ''-u'', ''origin'', ''main''] 128),
    \<lparr>initialized = True, branch_name = ''main'', staged = False, commits = 4,
      remotes = [(''origin'', ''https://example.org/new.git'')], reachable = [], pushed = []\<rparr>,
    [([''git'', ''checkout'', ''-B'', ''main''], Exited 0),
     ([''git'', ''add'', ''.''], Exited 0),
     ([''git'', ''commit'', ''-m'', ''Add generated assessment questions''], Exited 0),
     ([''git'', ''remote''], Exited 0),
     ([''git'', ''remote'', ''remove'', ''origin''], Exited 0),
     ([''git'', ''remote'', ''add'', ''origin'', ''https://example.org/new.git''], Exited 0),
     ([''git'', ''push'', ''-u'', ''origin'', ''main''], Exited 128)])
   \<and> \<lparr>initialized = True, branch_name = ''main'', staged = False, commits = 4,
      remotes = [(''origin'', ''https://example.org/new.git'')], reachable = [], pushed = []\<rparr>
     = world_after git [''out'', ''github_repo'']
         [[''git'', ''checkout'', ''-B'', ''main''],
          [''git'', ''add'', ''.''],
          [''git'', ''commit'', ''-m'', ''Add generated assessment questions''],
          [''git'', ''remote''],
          [''git'', ''remote'', ''remove'', ''origin''],
          [''git'', ''remote'', ''add'', ''origin'', ''https://example.org/new.git''],
          [''git'', ''push'', ''-u'', ''origin'', ''main'']]
         offline_repository"
  using publisher_is_linear [OF offline_run] offline_run
  by simp

section \<open>Publishing from a directory that has no remote\<close>

text \<open>
  Whatever stands in for git: when the listing of the remotes exits with status 0 and the
  removal of origin exits with another status than 0, the removal raises, and with it the
  publisher, before origin is added and before anything is pushed.
\<close>

lemma remove_origin_raises:
  assumes "tool [''git'', ''remote''] cwd (fst s) = (Exited 0, w1)"
    and "tool [''git'', ''remote'', ''remove'', ''origin''] cwd w1 = (Exited rc, w2)"
    and "rc \<noteq> 0"
  shows "remove_origin tool cwd s =
    (Inl (CalledProcessError [''git'', ''remote'', ''remove'', ''origin''] rc),
     (w2, snd s @ [([''git'', ''remote''], Exited 0),
                   ([''git'', ''remote'', ''remove'', ''origin''], Exited rc)]))"
  using assms by (simp add: remove_origin_def run_def subprocess_run_def)

text \<open>
  Claim C4 says that the addition of origin and the push are reached whether a remote named
  origin existed before or not.  In a directory that is no repository yet, which is what
  \<open>main\<close> always hands to the publisher, there is no such remote: git lists the remotes
  with status 0, the removal of origin exits with status 2, and the run ends there with
  \<open>CalledProcessError\<close>.  The commit has been made; origin was never added and nothing
  was pushed.
\<close>

theorem publishing_fresh_directory_stops_at_remove:
  "git_init_and_push git git_dir_exists [''out'', ''github_repo''] ''https://example.org/new.git'' ''main''
     (fresh_directory, []) =
   (Inl (CalledProcessError [''git'', ''remote'', ''remove'', ''origin''] 2),
    \<lparr>initialized = True, branch_name = ''main'', staged = False, commits = 1, remotes = [],
      reachable = [''https://example.org/new.git''], pushed = []\<rparr>,
    [([''git'', ''init''], Exited 0),
     ([''git'', ''checkout'', ''-B'', ''main''], Exited 0),
     ([''git'', ''add'', ''.''], Exited 0),
     ([''git'', ''commit'', ''-m'', ''Add generated assessment questions''], Exited 0),
     ([''git'', ''remote''], Exited 0),
     ([''git'', ''remote'', ''remove'', ''origin''], Exited 2)])"
  by (simp add: publisher_eval fresh_directory_def)

end
